theory Spec2Isabelle
  imports Main
begin

section \<open>Data model of push.go\<close>

text \<open>
  Go errors are values. \<open>ErrPathNotExists\<close> is the sentinel that push.go compares
  against; every other error is carried with its message, as \<open>fmt.Errorf\<close> builds it.
\<close>

datatype err = ErrPathNotExists | Err string

text \<open>
  \<open>File\<close> and \<open>Change\<close> are declared outside push.go. A \<open>*File\<close> is a \<open>File option\<close>
  (\<open>None\<close> is the nil pointer). Of \<open>File\<close>, the fields that push.go reads or writes are
  kept (\<open>Id\<close>, \<open>Name\<close>, \<open>IsDir\<close>), and the size of the spec's data model. The field \<open>Id\<close>
  is written \<open>Id_f\<close>, since \<open>Id\<close> is the identity relation of HOL. The operation of a
  change is what its method \<open>Op\<close> returns, a collaborator of \<open>Commands\<close> below.
\<close>

record File =
  Id_f :: string
  Name :: string
  IsDir :: bool
  Size :: int

record Change =
  Path :: string
  Src :: "File option"
  Dest :: "File option"

text \<open>
  Modelled from the spec: the operation kinds are declared outside push.go. The spec's
  kinds are \<open>Add\<close>, \<open>Mod\<close>, \<open>ModConflict\<close> and \<open>Delete\<close>; \<open>OpNone\<close> stands for every other
  value that the method \<open>Op\<close> may return, which the \<open>switch\<close> of \<open>playPushChangeList\<close>
  lets pass.
\<close>

datatype Operation = OpNone | OpAdd | OpDelete | OpMod | OpModConflict

text \<open>
  Modelled from the spec: the quota statuses are declared outside push.go. The spec's
  statuses are \<open>Ok\<close>, \<open>AlmostExceeded\<close> and \<open>Exceeded\<close>; \<open>Push\<close> tells the last two from
  every other value.
\<close>

datatype QuotaStatus = Ok | AlmostExceeded | Exceeded

record upsertOpt =
  parentId :: string
  fsAbsPath :: string
  src :: "File option"
  dest :: "File option"
  mask :: int
  ignoreChecksum :: bool

text \<open>The result of \<open>os.Stat\<close>, handed unread to \<open>NewLocalFile\<close>.\<close>

record FileInfo =
  info_name :: string
  info_size :: int
  info_isDir :: bool

text \<open>A mount point of \<open>g.opts.Mount.Points\<close>; its field \<open>Name\<close> is written \<open>MtName\<close>.\<close>

record MountPoint =
  MtName :: string
  MountPath :: string

record Mount =
  Points :: "MountPoint list"

record Options =
  Sources :: "string list"
  Mount :: "Mount option"
  NoPrompt :: bool
  NoClobber :: bool
  TypeMask :: int
  IgnoreChecksum :: bool

text \<open>
  Modelled from the spec: an index entry is the locally cached snapshot of a File's
  remote metadata (the type \<open>config.Index\<close> is declared outside push.go).
\<close>

type_synonym Index = File

section \<open>Observable behaviour\<close>

text \<open>What push.go prints, one constructor for each \<open>fmt.Print\<close> call of the file.\<close>

datatype logmsg =
    MsgResolving
  | MsgAlmostExceeded
  | MsgExceeded
  | MsgProjectedSize int string
  | MsgUpsertFailed string err
  | MsgSerializeIndex string err
  | MsgRemoveIndex string string err

text \<open>
  Every call that leaves push.go is recorded with its arguments and its result, in the
  order in which it is made. \<open>EvMkdirAll\<close> and \<open>EvDispatch\<close> mark the entry into
  \<open>mkdirAll\<close> and the call \<open>f(c)\<close> of \<open>scheduleUpserts\<close>.
\<close>

datatype event =
    EvFindByPath string "File option" "err option"
  | EvUpsertByComparison upsertOpt "File option" "err option"
  | EvTrash string "err option"
  | EvSerializeIndex Index string "err option"
  | EvRemove string "err option"
  | EvStat string "FileInfo option"
  | EvChangeListResolve string string bool "Change list" "err option"
  | EvResolveChangeListRecv bool string string "File option" "File option" "Change list" "err option"
  | EvConflictsPersist "Change list" bool
  | EvPrintChangeList "Change list" bool bool bool
  | EvQuotaStatus int QuotaStatus "err option"
  | EvPromptForChanges bool
  | EvPrint logmsg
  | EvTaskStart nat
  | EvTaskDone
  | EvTaskFinish
  | EvClearMountPoints
  | EvMkdirAll string
  | EvDispatch Change

text \<open>
  The world is the state \<open>ext\<close> of everything outside push.go (the remote service, the
  local file system, the terminal) and the trace of the calls made so far.
\<close>

record 'x world =
  ext :: 'x
  trace :: "event list"

text \<open>
  \<open>Commands\<close> is the receiver \<open>g\<close>: its options and the collaborators that push.go calls
  and does not define. A collaborator that can have an effect takes the external state
  and returns the new one. A Go function returning \<open>(v, err)\<close> returns a pair here.
  The trie of \<open>scheduleUpserts\<close> (an external library) is \<open>potentialDirs\<close>: from the
  inserted paths, the data of the end-of-string nodes below each node tagged as a
  potential directory, in the order in which the channel yields the tagged nodes.
  \<open>sift\<close>, \<open>resolveConflicts\<close> and \<open>reduceToSize\<close> compute on the change list only;
  \<open>resolveConflicts\<close> reads the index through the lookup that \<open>Push\<close> hands to it.
\<close>

record 'x Commands =
  opts :: Options
  AbsPathOf :: "string \<Rightarrow> string"
  IndicesAbsPath :: "string \<Rightarrow> string \<Rightarrow> string"
  gopath_Join :: "string list \<Rightarrow> string"
  Op :: "Change \<Rightarrow> Operation"
  ToIndex :: "File \<Rightarrow> Index"
  NewLocalFile :: "string \<Rightarrow> FileInfo \<Rightarrow> File"
  prettyBytes :: "int \<Rightarrow> string"
  potentialDirs :: "string list \<Rightarrow> string list list"
  commonPrefix :: "string list \<Rightarrow> string"
  sift :: "Change list \<Rightarrow> Change list \<times> Change list"
  resolveConflicts ::
    "Change list \<Rightarrow> bool \<Rightarrow> (string \<Rightarrow> Index option) \<Rightarrow> Change list \<times> Change list"
  reduceToSize :: "Change list \<Rightarrow> bool \<Rightarrow> int"
  DeserializeIndex :: "'x \<Rightarrow> string \<Rightarrow> string \<Rightarrow> Index option \<times> err option"
  FindByPath :: "'x \<Rightarrow> string \<Rightarrow> (File option \<times> err option) \<times> 'x"
  UpsertByComparison :: "'x \<Rightarrow> upsertOpt \<Rightarrow> (File option \<times> err option) \<times> 'x"
  Trash :: "'x \<Rightarrow> string \<Rightarrow> err option \<times> 'x"
  SerializeIndex :: "'x \<Rightarrow> Index \<Rightarrow> string \<Rightarrow> err option \<times> 'x"
  os_Remove :: "'x \<Rightarrow> string \<Rightarrow> err option \<times> 'x"
  os_Stat :: "'x \<Rightarrow> string \<Rightarrow> FileInfo option \<times> 'x"
  changeListResolve ::
    "'x \<Rightarrow> string \<Rightarrow> string \<Rightarrow> bool \<Rightarrow> (Change list \<times> err option) \<times> 'x"
  resolveChangeListRecv ::
    "'x \<Rightarrow> bool \<Rightarrow> string \<Rightarrow> string \<Rightarrow> File option \<Rightarrow> File option
      \<Rightarrow> (Change list \<times> err option) \<times> 'x"
  conflictsPersist :: "'x \<Rightarrow> Change list \<Rightarrow> bool \<times> 'x"
  printChangeList :: "'x \<Rightarrow> Change list \<Rightarrow> bool \<Rightarrow> bool \<Rightarrow> bool \<times> 'x"
  QuotaStatus :: "'x \<Rightarrow> int \<Rightarrow> (QuotaStatus \<times> err option) \<times> 'x"
  promptForChanges :: "'x \<Rightarrow> bool \<times> 'x"
  taskStart :: "'x \<Rightarrow> nat \<Rightarrow> 'x"
  taskDone :: "'x \<Rightarrow> 'x"
  taskFinish :: "'x \<Rightarrow> 'x"
  clearMountPoints :: "'x \<Rightarrow> 'x"

text \<open>
  A Go function either returns or panics (a nil pointer is dereferenced). A panic
  unwinds the stack: the deferred calls run and no caller continues.
\<close>

datatype 'a outcome = Panic | Done 'a

definition emit :: "event \<Rightarrow> 'x world \<Rightarrow> 'x world" where
  "emit e w = w\<lparr>trace := trace w @ [e]\<rparr>"

definition newEvents :: "'x world \<Rightarrow> 'x world \<Rightarrow> event list" where
  "newEvents w w' = drop (length (trace w)) (trace w')"

subsection \<open>Calls to the collaborators\<close>

definition call_FindByPath ::
  "'x Commands \<Rightarrow> string \<Rightarrow> 'x world \<Rightarrow> (File option \<times> err option) \<times> 'x world" where
  "call_FindByPath g p w =
     (case FindByPath g (ext w) p of
        ((f, e), x) \<Rightarrow> ((f, e), emit (EvFindByPath p f e) (w\<lparr>ext := x\<rparr>)))"

definition call_UpsertByComparison ::
  "'x Commands \<Rightarrow> upsertOpt \<Rightarrow> 'x world \<Rightarrow> (File option \<times> err option) \<times> 'x world" where
  "call_UpsertByComparison g args w =
     (case UpsertByComparison g (ext w) args of
        ((f, e), x) \<Rightarrow> ((f, e), emit (EvUpsertByComparison args f e) (w\<lparr>ext := x\<rparr>)))"

definition call_Trash :: "'x Commands \<Rightarrow> string \<Rightarrow> 'x world \<Rightarrow> err option \<times> 'x world" where
  "call_Trash g i w =
     (case Trash g (ext w) i of (e, x) \<Rightarrow> (e, emit (EvTrash i e) (w\<lparr>ext := x\<rparr>)))"

definition call_SerializeIndex ::
  "'x Commands \<Rightarrow> Index \<Rightarrow> string \<Rightarrow> 'x world \<Rightarrow> err option \<times> 'x world" where
  "call_SerializeIndex g i root w =
     (case SerializeIndex g (ext w) i root of
        (e, x) \<Rightarrow> (e, emit (EvSerializeIndex i root e) (w\<lparr>ext := x\<rparr>)))"

definition call_os_Remove :: "'x Commands \<Rightarrow> string \<Rightarrow> 'x world \<Rightarrow> err option \<times> 'x world" where
  "call_os_Remove g p w =
     (case os_Remove g (ext w) p of (e, x) \<Rightarrow> (e, emit (EvRemove p e) (w\<lparr>ext := x\<rparr>)))"

definition call_os_Stat ::
  "'x Commands \<Rightarrow> string \<Rightarrow> 'x world \<Rightarrow> FileInfo option \<times> 'x world" where
  "call_os_Stat g p w =
     (case os_Stat g (ext w) p of (i, x) \<Rightarrow> (i, emit (EvStat p i) (w\<lparr>ext := x\<rparr>)))"

definition call_taskDone :: "'x Commands \<Rightarrow> 'x world \<Rightarrow> 'x world" where
  "call_taskDone g w = emit EvTaskDone (w\<lparr>ext := taskDone g (ext w)\<rparr>)"

section \<open>The change applier\<close>

definition indexAbsPath :: "'x Commands \<Rightarrow> string \<Rightarrow> string" where
  "indexAbsPath g fileId = IndicesAbsPath g (AbsPathOf g []) fileId"

text \<open>
  \<open>remoteDelete\<close>: \<open>change.Dest.Id\<close> panics on a nil \<open>Dest\<close>; the deferred \<open>taskDone\<close>
  runs on every way out.
\<close>

definition remoteDelete_body ::
  "'x Commands \<Rightarrow> Change \<Rightarrow> 'x world \<Rightarrow> err option outcome \<times> 'x world" where
  "remoteDelete_body g change w =
     (case Dest change of
        None \<Rightarrow> (Panic, w)
      | Some d \<Rightarrow>
          (case call_Trash g (Id_f d) w of
             (Some e, w1) \<Rightarrow> (Done (Some e), w1)
           | (None, w1) \<Rightarrow>
               (case call_os_Remove g (indexAbsPath g (Id_f d)) w1 of
                  (Some rmErr, w2) \<Rightarrow>
                    (Done None, emit (EvPrint (MsgRemoveIndex (Path change) (Id_f d) rmErr)) w2)
                | (None, w2) \<Rightarrow> (Done None, w2))))"

definition remoteDelete ::
  "'x Commands \<Rightarrow> Change \<Rightarrow> 'x world \<Rightarrow> err option outcome \<times> 'x world" where
  "remoteDelete g change w =
     (case remoteDelete_body g change w of (r, w') \<Rightarrow> (r, call_taskDone g w'))"


subsection \<open>Paths\<close>

text \<open>
  Modelled from the spec: the constant \<open>UnescapedPathSep\<close> is declared outside push.go;
  the spec's paths are slash-delimited, so it is the one-character string of the slash.
\<close>

definition UnescapedPathSep :: string where
  "UnescapedPathSep = ''/''"

text \<open>\<open>strings.TrimRight s cutset\<close> removes every trailing character that is in \<open>cutset\<close>.\<close>

definition strings_TrimRight :: "string \<Rightarrow> string \<Rightarrow> string" where
  "strings_TrimRight s cutset = rev (dropWhile (\<lambda>c. c \<in> set cutset) (rev s))"

text \<open>
  \<open>filepath.Split\<close> (with the Unix separator) cuts right after the last slash; with no
  slash the directory is empty and the file is the whole path.
\<close>

definition filepath_Split :: "string \<Rightarrow> string \<times> string" where
  "filepath_Split p =
     (let file = rev (takeWhile (\<lambda>c. c \<noteq> CHR ''/'') (rev p))
      in (take (length p - length file) p, file))"

text \<open>\<open>strings.Split s sep\<close> for a separator of one character.\<close>

fun strings_Split :: "string \<Rightarrow> char \<Rightarrow> string list" where
  "strings_Split [] sep = [[]]"
| "strings_Split (x # xs) sep =
     (if x = sep then [] # strings_Split xs sep
      else (case strings_Split xs sep of
              [] \<Rightarrow> [[x]]
            | y # ys \<Rightarrow> (x # y) # ys))"

definition parentPath :: "'x Commands \<Rightarrow> string \<Rightarrow> string" where
  "parentPath g p = gopath_Join g (''/'' # butlast (strings_Split p CHR ''/''))"

subsection \<open>Upserts\<close>

text \<open>
  Line 237 of \<open>remoteMod\<close>: with a non-nil \<open>Dest\<close> the identifier of \<open>Src\<close> is overwritten
  (a nil \<open>Src\<close> is dereferenced there, which panics). The result is \<open>change.Src\<close> as the
  rest of the function reads it. The Go code writes into the shared \<open>File\<close>; no other
  function of push.go reads that change again.
\<close>

definition remoteMod_src :: "Change \<Rightarrow> File option outcome" where
  "remoteMod_src change =
     (case Dest change of
        None \<Rightarrow> Done (Src change)
      | Some d \<Rightarrow>
          (case Src change of
             None \<Rightarrow> Panic
           | Some s \<Rightarrow> Done (Some (s\<lparr>Id_f := Id_f d\<rparr>))))"

definition remoteMod_body ::
  "'x Commands \<Rightarrow> Change \<Rightarrow> 'x world \<Rightarrow> err option outcome \<times> 'x world" where
  "remoteMod_body g change w =
     (let absPath = AbsPathOf g (Path change) in
      case remoteMod_src change of
        Panic \<Rightarrow> (Panic, w)
      | Done src' \<Rightarrow>
          (case call_FindByPath g (parentPath g (Path change)) w of
             ((parent, Some e), w1) \<Rightarrow> (Done (Some e), w1)
           | ((None, None), w1) \<Rightarrow> (Panic, w1)
           | ((Some p, None), w1) \<Rightarrow>
               (let args = \<lparr>parentId = Id_f p, fsAbsPath = absPath, src = src',
                             dest = Dest change, mask = TypeMask (opts g),
                             ignoreChecksum = IgnoreChecksum (opts g)\<rparr>
                in case call_UpsertByComparison g args w1 of
                     ((rem, Some e), w2) \<Rightarrow>
                       (Done (Some e), emit (EvPrint (MsgUpsertFailed (Path change) e)) w2)
                   | ((None, None), w2) \<Rightarrow> (Done None, w2)
                   | ((Some r, None), w2) \<Rightarrow>
                       (case call_SerializeIndex g (ToIndex g r) (AbsPathOf g []) w2 of
                          (Some wErr, w3) \<Rightarrow>
                            (Done None, emit (EvPrint (MsgSerializeIndex (Name r) wErr)) w3)
                        | (None, w3) \<Rightarrow> (Done None, w3)))))"

definition remoteMod ::
  "'x Commands \<Rightarrow> Change \<Rightarrow> 'x world \<Rightarrow> err option outcome \<times> 'x world" where
  "remoteMod g change w =
     (case remoteMod_body g change w of (r, w') \<Rightarrow> (r, call_taskDone g w'))"

definition remoteAdd ::
  "'x Commands \<Rightarrow> Change \<Rightarrow> 'x world \<Rightarrow> err option outcome \<times> 'x world" where
  "remoteAdd g change w = remoteMod g change w"

subsection \<open>Directory ensure\<close>

text \<open>
  Lines 326 to 345 of \<open>mkdirAll\<close>: the leaf is created under the parent \<open>p\<close>, which is
  not nil there.
\<close>

definition mkdirAll_create ::
  "'x Commands \<Rightarrow> string \<Rightarrow> File \<Rightarrow> 'x world \<Rightarrow> (File option \<times> err option) \<times> 'x world" where
  "mkdirAll_create g last' p w =
     (let remoteFile = \<lparr>Id_f = [], Name = last', IsDir = True, Size = 0\<rparr>;
          args = \<lparr>parentId = Id_f p, fsAbsPath = [], src = Some remoteFile, dest = None,
                  mask = 0, ignoreChecksum = False\<rparr>
      in case call_UpsertByComparison g args w of
           ((Some f, None), w1) \<Rightarrow>
             (case call_SerializeIndex g (ToIndex g f) (AbsPathOf g []) w1 of
                (Some wErr, w2) \<Rightarrow>
                  ((Some f, None), emit (EvPrint (MsgSerializeIndex (Name f) wErr)) w2)
              | (None, w2) \<Rightarrow> ((Some f, None), w2))
         | ((parent, parentErr), w1) \<Rightarrow> ((parent, parentErr), w1))"

function mkdirAll ::
  "'x Commands \<Rightarrow> string \<Rightarrow> 'x world \<Rightarrow> (File option \<times> err option) \<times> 'x world" where
  "mkdirAll g d w =
     (case call_FindByPath g d (emit (EvMkdirAll d) w) of
        ((retrFile, retryErr), w1) \<Rightarrow>
          if retryErr = None \<and> retrFile \<noteq> None then ((retrFile, None), w1)
          else
            (case filepath_Split (strings_TrimRight d UnescapedPathSep) of
               (rest, last') \<Rightarrow>
                 if rest = [] \<or> last' = []
                 then ((None, Some (Err ''cannot tamper with root'')), w1)
                 else
                   (case call_FindByPath g rest w1 of
                      ((parent, parentErr), w2) \<Rightarrow>
                        if parentErr \<noteq> None \<and> parentErr \<noteq> Some ErrPathNotExists
                        then ((parent, parentErr), w2)
                        else
                          (case parent of
                             Some p \<Rightarrow> mkdirAll_create g last' p w2
                           | None \<Rightarrow>
                               (case mkdirAll g rest w2 of
                                  ((Some p, None), w3) \<Rightarrow> mkdirAll_create g last' p w3
                                | ((parent', parentErr'), w3) \<Rightarrow>
                                    ((parent', parentErr'), w3))))))"
  by pat_completeness auto
termination
proof (relation "measure (\<lambda>(g, d, w). length d)")
  show "wf (measure (\<lambda>(g :: 'x Commands, d :: string, w :: 'x world). length d))"
    by simp
next
  fix g :: "'x Commands" and d :: string and w :: "'x world"
    and rest last' :: string and x2 :: "'x world" and xa xb ya yb y x1 x1a x2a x2b x1b x2c
  assume "(rest, last') = filepath_Split (strings_TrimRight d UnescapedPathSep)"
    and nonempty: "\<not> (rest = [] \<or> last' = [])"
  then have rest: "rest = take (length (strings_TrimRight d UnescapedPathSep) - length last')
                           (strings_TrimRight d UnescapedPathSep)"
    and last: "last' = rev (takeWhile (\<lambda>c. c \<noteq> CHR ''/'')
                              (rev (strings_TrimRight d UnescapedPathSep)))"
    by (simp_all add: filepath_Split_def Let_def)
  have a: "length last' \<le> length (strings_TrimRight d UnescapedPathSep)"
    unfolding last using length_takeWhile_le [of _ "rev (strings_TrimRight d UnescapedPathSep)"]
    by simp
  have b: "length (strings_TrimRight d UnescapedPathSep) \<le> length d"
    unfolding strings_TrimRight_def using length_dropWhile_le [of _ "rev d"] by simp
  have c: "0 < length last'"
    using nonempty by simp
  have "length rest \<le> length (strings_TrimRight d UnescapedPathSep) - length last'"
    by (subst rest) simp
  with a b c have "length rest < length d"
    by arith
  then show "((g, rest, x2), (g, d, w)) \<in> measure (\<lambda>(g, d, w). length d)"
    by simp
qed

declare mkdirAll.simps [simp del]


subsection \<open>Scheduling\<close>

text \<open>
  The first loop of \<open>scheduleUpserts\<close>, over the potential directories: a group
  without prefixes is skipped, the first failing \<open>mkdirAll\<close> is returned.
\<close>

fun scheduleUpserts_dirs ::
  "'x Commands \<Rightarrow> string list list \<Rightarrow> 'x world \<Rightarrow> err option \<times> 'x world" where
  "scheduleUpserts_dirs g [] w = (None, w)"
| "scheduleUpserts_dirs g (prefixes # matches) w =
     (if length prefixes < 1 then scheduleUpserts_dirs g matches w
      else
        (case mkdirAll g (strings_TrimRight (commonPrefix g prefixes) UnescapedPathSep) w of
           ((file, Some pErr), w1) \<Rightarrow> (Some pErr, w1)
         | ((file, None), w1) \<Rightarrow> scheduleUpserts_dirs g matches w1))"

text \<open>
  The second loop, \<open>f(c)\<close> for every change: the error that \<open>f\<close> returns is dropped,
  a panic of \<open>f\<close> ends the loop.
\<close>

fun scheduleUpserts_files ::
  "(Change \<Rightarrow> 'x world \<Rightarrow> err option outcome \<times> 'x world) \<Rightarrow> Change list \<Rightarrow> 'x world
     \<Rightarrow> unit outcome \<times> 'x world" where
  "scheduleUpserts_files f [] w = (Done (), w)"
| "scheduleUpserts_files f (c # cl) w =
     (case f c (emit (EvDispatch c) w) of
        (Panic, w1) \<Rightarrow> (Panic, w1)
      | (Done e, w1) \<Rightarrow> scheduleUpserts_files f cl w1)"

definition scheduleUpserts ::
  "'x Commands \<Rightarrow> Change list \<Rightarrow> (Change \<Rightarrow> 'x world \<Rightarrow> err option outcome \<times> 'x world)
     \<Rightarrow> 'x world \<Rightarrow> err option outcome \<times> 'x world" where
  "scheduleUpserts g cl f w =
     (case scheduleUpserts_dirs g (potentialDirs g (map Path cl)) w of
        (Some pErr, w1) \<Rightarrow> (Done (Some pErr), w1)
      | (None, w1) \<Rightarrow>
          (case scheduleUpserts_files f cl w1 of
             (Panic, w2) \<Rightarrow> (Panic, w2)
           | (Done u, w2) \<Rightarrow> (Done None, w2)))"

definition scheduleMods ::
  "'x Commands \<Rightarrow> Change list \<Rightarrow> 'x world \<Rightarrow> err option outcome \<times> 'x world" where
  "scheduleMods g cl w = scheduleUpserts g cl (remoteMod g) w"

definition scheduleAdds ::
  "'x Commands \<Rightarrow> Change list \<Rightarrow> 'x world \<Rightarrow> err option outcome \<times> 'x world" where
  "scheduleAdds g cl w = scheduleUpserts g cl (remoteAdd g) w"

fun scheduleDels ::
  "'x Commands \<Rightarrow> Change list \<Rightarrow> 'x world \<Rightarrow> err option outcome \<times> 'x world" where
  "scheduleDels g [] w = (Done None, w)"
| "scheduleDels g (c # cl) w =
     (case remoteDelete g c w of
        (Panic, w1) \<Rightarrow> (Panic, w1)
      | (Done e, w1) \<Rightarrow> scheduleDels g cl w1)"

text \<open>
  The loop of \<open>playPushChangeList\<close> that sorts the changes into \<open>adds\<close>, \<open>mods\<close> and
  \<open>dels\<close> (the \<open>switch\<close> has no default: any other operation is dropped). The sort by
  precedence above it is guarded by \<open>false\<close> and never runs.
\<close>

fun playPushChangeList_groups ::
  "'x Commands \<Rightarrow> Change list \<Rightarrow> Change list \<times> Change list \<times> Change list
     \<Rightarrow> Change list \<times> Change list \<times> Change list" where
  "playPushChangeList_groups g [] (adds, mods, dels) = (adds, mods, dels)"
| "playPushChangeList_groups g (c # cl) (adds, mods, dels) =
     playPushChangeList_groups g cl
       (case Op g c of
          OpMod \<Rightarrow> (adds, mods @ [c], dels)
        | OpModConflict \<Rightarrow> (adds, mods @ [c], dels)
        | OpAdd \<Rightarrow> (adds @ [c], mods, dels)
        | OpDelete \<Rightarrow> (adds, mods, dels @ [c])
        | OpNone \<Rightarrow> (adds, mods, dels))"

definition call_taskStart :: "'x Commands \<Rightarrow> nat \<Rightarrow> 'x world \<Rightarrow> 'x world" where
  "call_taskStart g n w = emit (EvTaskStart n) (w\<lparr>ext := taskStart g (ext w) n\<rparr>)"

definition call_taskFinish :: "'x Commands \<Rightarrow> 'x world \<Rightarrow> 'x world" where
  "call_taskFinish g w = emit EvTaskFinish (w\<lparr>ext := taskFinish g (ext w)\<rparr>)"

text \<open>The results of the three schedulers are dropped; \<open>err\<close> is never assigned.\<close>

definition playPushChangeList ::
  "'x Commands \<Rightarrow> Change list \<Rightarrow> 'x world \<Rightarrow> err option outcome \<times> 'x world" where
  "playPushChangeList g cl w =
     (case playPushChangeList_groups g cl ([], [], []) of
        (adds, mods, dels) \<Rightarrow>
          (case scheduleAdds g adds (call_taskStart g (length cl) w) of
             (Panic, w1) \<Rightarrow> (Panic, w1)
           | (Done e1, w1) \<Rightarrow>
               (case scheduleMods g mods w1 of
                  (Panic, w2) \<Rightarrow> (Panic, w2)
                | (Done e2, w2) \<Rightarrow>
                    (case scheduleDels g dels w2 of
                       (Panic, w3) \<Rightarrow> (Panic, w3)
                     | (Done e3, w3) \<Rightarrow> (Done None, call_taskFinish g w3)))))"

section \<open>The push orchestrator\<close>

definition call_changeListResolve ::
  "'x Commands \<Rightarrow> string \<Rightarrow> string \<Rightarrow> bool \<Rightarrow> 'x world
     \<Rightarrow> (Change list \<times> err option) \<times> 'x world" where
  "call_changeListResolve g rel fsPath isPush w =
     (case changeListResolve g (ext w) rel fsPath isPush of
        ((ccl, e), x) \<Rightarrow>
          ((ccl, e), emit (EvChangeListResolve rel fsPath isPush ccl e) (w\<lparr>ext := x\<rparr>)))"

definition call_resolveChangeListRecv ::
  "'x Commands \<Rightarrow> bool \<Rightarrow> string \<Rightarrow> string \<Rightarrow> File option \<Rightarrow> File option \<Rightarrow> 'x world
     \<Rightarrow> (Change list \<times> err option) \<times> 'x world" where
  "call_resolveChangeListRecv g isPush parent absPath r l w =
     (case resolveChangeListRecv g (ext w) isPush parent absPath r l of
        ((ccl, e), x) \<Rightarrow>
          ((ccl, e),
           emit (EvResolveChangeListRecv isPush parent absPath r l ccl e) (w\<lparr>ext := x\<rparr>)))"

definition call_conflictsPersist ::
  "'x Commands \<Rightarrow> Change list \<Rightarrow> 'x world \<Rightarrow> bool \<times> 'x world" where
  "call_conflictsPersist g cl w =
     (case conflictsPersist g (ext w) cl of
        (b, x) \<Rightarrow> (b, emit (EvConflictsPersist cl b) (w\<lparr>ext := x\<rparr>)))"

definition call_printChangeList ::
  "'x Commands \<Rightarrow> Change list \<Rightarrow> bool \<Rightarrow> bool \<Rightarrow> 'x world \<Rightarrow> bool \<times> 'x world" where
  "call_printChangeList g cl noPrompt noClobber w =
     (case printChangeList g (ext w) cl noPrompt noClobber of
        (b, x) \<Rightarrow> (b, emit (EvPrintChangeList cl noPrompt noClobber b) (w\<lparr>ext := x\<rparr>)))"

definition call_QuotaStatus ::
  "'x Commands \<Rightarrow> int \<Rightarrow> 'x world \<Rightarrow> (QuotaStatus \<times> err option) \<times> 'x world" where
  "call_QuotaStatus g n w =
     (case QuotaStatus g (ext w) n of
        ((q, e), x) \<Rightarrow> ((q, e), emit (EvQuotaStatus n q e) (w\<lparr>ext := x\<rparr>)))"

definition call_promptForChanges :: "'x Commands \<Rightarrow> 'x world \<Rightarrow> bool \<times> 'x world" where
  "call_promptForChanges g w =
     (case promptForChanges g (ext w) of
        (b, x) \<Rightarrow> (b, emit (EvPromptForChanges b) (w\<lparr>ext := x\<rparr>)))"

definition call_clearMountPoints :: "'x Commands \<Rightarrow> 'x world \<Rightarrow> 'x world" where
  "call_clearMountPoints g w = emit EvClearMountPoints (w\<lparr>ext := clearMountPoints g (ext w)\<rparr>)"

definition deserializeIndex :: "'x Commands \<Rightarrow> 'x \<Rightarrow> string \<Rightarrow> Index option" where
  "deserializeIndex g x identifier =
     (case DeserializeIndex g x (AbsPathOf g []) identifier of
        (index, Some e) \<Rightarrow> None
      | (index, None) \<Rightarrow> index)"

definition lonePush ::
  "'x Commands \<Rightarrow> string \<Rightarrow> string \<Rightarrow> string \<Rightarrow> 'x world
     \<Rightarrow> (Change list \<times> err option) \<times> 'x world" where
  "lonePush g parent absPath path w =
     (case call_FindByPath g absPath w of
        ((r, e), w1) \<Rightarrow>
          if e \<noteq> None \<and> e \<noteq> Some ErrPathNotExists then (([], e), w1)
          else
            (case call_os_Stat g path w1 of
               (localinfo, w2) \<Rightarrow>
                 call_resolveChangeListRecv g True parent absPath r
                   (case localinfo of
                      None \<Rightarrow> None
                    | Some i \<Rightarrow> Some (NewLocalFile g path i)) w2))"

text \<open>The loop of \<open>Push\<close> over \<open>g.opts.Sources\<close>: the first error ends the push.\<close>

fun Push_sources ::
  "'x Commands \<Rightarrow> string list \<Rightarrow> Change list \<Rightarrow> 'x world \<Rightarrow> (err + Change list) \<times> 'x world" where
  "Push_sources g [] cl w = (Inr cl, w)"
| "Push_sources g (relToRootPath # sources) cl w =
     (case call_changeListResolve g relToRootPath (AbsPathOf g relToRootPath) True w of
        ((ccl, Some cErr), w1) \<Rightarrow> (Inl cErr, w1)
      | ((ccl, None), w1) \<Rightarrow>
          Push_sources g sources (if length ccl > 0 then cl @ ccl else cl) w1)"

text \<open>The loop of \<open>Push\<close> over the mount points: a result with an error is not appended.\<close>

fun Push_mounts ::
  "'x Commands \<Rightarrow> string \<Rightarrow> MountPoint list \<Rightarrow> Change list \<Rightarrow> 'x world
     \<Rightarrow> Change list \<times> 'x world" where
  "Push_mounts g root [] cl w = (cl, w)"
| "Push_mounts g root (mt # points) cl w =
     (case lonePush g root (MtName mt) (MountPath mt) w of
        ((ccl, cerr), w1) \<Rightarrow>
          Push_mounts g root points (if cerr = None then cl @ ccl else cl) w1)"

text \<open>Lines 51 to 70 of \<open>Push\<close>: the change list \<open>cl\<close>, or the error of a source.\<close>

definition Push_gather ::
  "'x Commands \<Rightarrow> 'x world \<Rightarrow> (err + Change list) \<times> 'x world" where
  "Push_gather g w =
     (case Push_sources g (Sources (opts g)) [] w of
        (Inl cErr, w1) \<Rightarrow> (Inl cErr, w1)
      | (Inr cl, w1) \<Rightarrow>
          (case Mount (opts g) of
             None \<Rightarrow> (Inr cl, w1)
           | Some mount \<Rightarrow>
               (case Push_mounts g (AbsPathOf g []) (Points mount) cl w1 of
                  (cl', w2) \<Rightarrow> (Inr cl', w2))))"

text \<open>
  Lines 72 to 85: the list \<open>nonConflicts\<close> as \<open>printChangeList\<close> receives it, or \<open>None\<close>
  when \<open>conflictsPersist\<close> ends the push.
\<close>

definition Push_merge ::
  "'x Commands \<Rightarrow> Change list \<Rightarrow> 'x world \<Rightarrow> Change list option \<times> 'x world" where
  "Push_merge g cl w =
     (case sift g cl of
        (nonConflicts, conflicts) \<Rightarrow>
          (case resolveConflicts g conflicts True (deserializeIndex g (ext w)) of
             (resolved, unresolved) \<Rightarrow>
               if length unresolved \<ge> 1 then
                 (case call_conflictsPersist g unresolved w of
                    (True, w1) \<Rightarrow> (None, w1)
                  | (False, w1) \<Rightarrow> (Some (nonConflicts @ (resolved @ unresolved)), w1))
               else (Some (nonConflicts @ resolved), w)))"

text \<open>Lines 89 to 109: the quota gate, entered when \<open>printChangeList\<close> returned true.\<close>

definition Push_quota ::
  "'x Commands \<Rightarrow> Change list \<Rightarrow> Change list \<Rightarrow> 'x world \<Rightarrow> err option outcome \<times> 'x world" where
  "Push_quota g cl nonConflicts w =
     (let pushSize = reduceToSize g cl True in
      case call_QuotaStatus g pushSize w of
        ((quotaStatus, Some qErr), w1) \<Rightarrow> (Done (Some qErr), w1)
      | ((quotaStatus, None), w1) \<Rightarrow>
          (case (case quotaStatus of
                   AlmostExceeded \<Rightarrow> (False, emit (EvPrint MsgAlmostExceeded) w1)
                 | Exceeded \<Rightarrow> (True, emit (EvPrint MsgExceeded) w1)
                 | Ok \<Rightarrow> (False, w1)) of
             (True, w2) \<Rightarrow>
               (case call_promptForChanges g
                       (emit (EvPrint (MsgProjectedSize pushSize (prettyBytes g pushSize))) w2) of
                  (False, w3) \<Rightarrow> (Done None, w3)
                | (True, w3) \<Rightarrow> playPushChangeList g nonConflicts w3)
           | (False, w2) \<Rightarrow> playPushChangeList g nonConflicts w2))"

text \<open>
  \<open>Push\<close> without its deferred call. The goroutine that waits for an interrupt signal
  is not part of the model.
\<close>

definition Push_body :: "'x Commands \<Rightarrow> 'x world \<Rightarrow> err option outcome \<times> 'x world" where
  "Push_body g w =
     (case Push_gather g (emit (EvPrint MsgResolving) w) of
        (Inl cErr, w1) \<Rightarrow> (Done (Some cErr), w1)
      | (Inr cl, w1) \<Rightarrow>
          (case Push_merge g cl w1 of
             (None, w2) \<Rightarrow> (Done None, w2)
           | (Some nonConflicts, w2) \<Rightarrow>
               (case call_printChangeList g nonConflicts (NoPrompt (opts g))
                       (NoClobber (opts g)) w2 of
                  (True, w3) \<Rightarrow> Push_quota g cl nonConflicts w3
                | (False, w3) \<Rightarrow> (Done None, w3))))"

definition Push :: "'x Commands \<Rightarrow> 'x world \<Rightarrow> err option outcome \<times> 'x world" where
  "Push g w = (case Push_body g w of (r, w') \<Rightarrow> (r, call_clearMountPoints g w'))"


section \<open>A reference environment\<close>

text \<open>
  A small executable instance of the collaborators, on which the model is run. The
  remote service is a table from paths to files, and the identifier of a remote object
  is its path; the user answers the prompts from a list.
\<close>

record sim =
  rfiles :: "(string \<times> File) list"
  indices :: "(string \<times> Index) list"
  locals :: "(string \<times> FileInfo) list"
  pending :: "(string \<times> Change list) list"
  answers :: "bool list"
  used :: int
  limit :: int

text \<open>
  Modelled from the spec: \<open>sift\<close> is defined outside push.go. It partitions strictly
  on the operation kind: \<open>ModConflict\<close> changes are the conflicting bucket.
\<close>

definition sift_spec :: "(Change \<Rightarrow> Operation) \<Rightarrow> Change list \<Rightarrow> Change list \<times> Change list" where
  "sift_spec op cl = (filter (\<lambda>c. op c \<noteq> OpModConflict) cl, filter (\<lambda>c. op c = OpModConflict) cl)"

text \<open>
  Modelled from the spec: \<open>resolveConflicts\<close> is defined outside push.go. A conflict
  whose destination still equals the cached index entry of its identifier is resolved,
  every other one is unresolved.
\<close>

definition resolveConflicts_spec ::
  "Change list \<Rightarrow> bool \<Rightarrow> (string \<Rightarrow> Index option) \<Rightarrow> Change list \<times> Change list" where
  "resolveConflicts_spec conflicts isPush indexLookup =
     (let stale = (\<lambda>c. case Dest c of
                          None \<Rightarrow> False
                        | Some d \<Rightarrow> indexLookup (Id_f d) = Some d)
      in (filter stale conflicts, filter (\<lambda>c. \<not> stale c) conflicts))"

text \<open>
  Modelled from the spec: \<open>reduceToSize\<close> is defined outside push.go. It is the
  aggregate byte size of a change list: a directory and a deletion contribute zero,
  an addition or a modification the size of its file.
\<close>

definition changeSize :: "(Change \<Rightarrow> Operation) \<Rightarrow> bool \<Rightarrow> Change \<Rightarrow> int" where
  "changeSize op fromSrc c =
     (if op c = OpAdd \<or> op c = OpMod \<or> op c = OpModConflict then
        (case (if fromSrc then Src c else Dest c) of
           None \<Rightarrow> 0
         | Some f \<Rightarrow> if IsDir f then 0 else Size f)
      else 0)"

definition reduceToSize_spec :: "(Change \<Rightarrow> Operation) \<Rightarrow> Change list \<Rightarrow> bool \<Rightarrow> int" where
  "reduceToSize_spec op cl fromSrc = sum_list (map (changeSize op fromSrc) cl)"

definition sim_Op :: "Change \<Rightarrow> Operation" where
  "sim_Op c =
     (case (Src c, Dest c) of
        (None, None) \<Rightarrow> OpNone
      | (Some s, None) \<Rightarrow> OpAdd
      | (None, Some d) \<Rightarrow> OpDelete
      | (Some s, Some d) \<Rightarrow> if Size s \<noteq> Size d then OpModConflict else OpMod)"

definition sim_key :: "string \<Rightarrow> string" where
  "sim_key p = (let t = strings_TrimRight p ''/'' in if t = [] then ''/'' else t)"

definition sim_FindByPath :: "sim \<Rightarrow> string \<Rightarrow> (File option \<times> err option) \<times> sim" where
  "sim_FindByPath x p =
     (case map_of (rfiles x) (sim_key p) of
        Some f \<Rightarrow> ((Some f, None), x)
      | None \<Rightarrow> ((None, Some ErrPathNotExists), x))"

definition sim_child :: "string \<Rightarrow> string \<Rightarrow> string" where
  "sim_child parent name = (if parent = ''/'' then ''/'' @ name else parent @ ''/'' @ name)"

text \<open>An upload of a file named \<open>locked\<close> is refused.\<close>

definition sim_UpsertByComparison :: "sim \<Rightarrow> upsertOpt \<Rightarrow> (File option \<times> err option) \<times> sim" where
  "sim_UpsertByComparison x args =
     (case src args of
        None \<Rightarrow> ((None, Some (Err ''nothing to upload'')), x)
      | Some s \<Rightarrow>
          if Name s = ''locked'' then ((None, Some (Err ''upload refused'')), x)
          else
            (let f = s\<lparr>Id_f := sim_child (parentId args) (Name s)\<rparr>
             in ((Some f, None),
                 x\<lparr>rfiles := (Id_f f, f) # filter (\<lambda>(k, v). k \<noteq> Id_f f) (rfiles x)\<rparr>)))"

definition sim_Trash :: "sim \<Rightarrow> string \<Rightarrow> err option \<times> sim" where
  "sim_Trash x i =
     (if i \<in> fst ` set (rfiles x)
      then (None, x\<lparr>rfiles := filter (\<lambda>(k, v). k \<noteq> i) (rfiles x)\<rparr>)
      else (Some (Err ''no such remote file''), x))"

definition sim_IndicesAbsPath :: "string \<Rightarrow> string \<Rightarrow> string" where
  "sim_IndicesAbsPath root fileId = root @ ''.gd/indices/'' @ fileId"

definition sim_SerializeIndex :: "sim \<Rightarrow> Index \<Rightarrow> string \<Rightarrow> err option \<times> sim" where
  "sim_SerializeIndex x i root =
     (None, x\<lparr>indices := (sim_IndicesAbsPath root (Id_f i), i)
                            # filter (\<lambda>(k, v). k \<noteq> sim_IndicesAbsPath root (Id_f i)) (indices x)\<rparr>)"

definition sim_DeserializeIndex :: "sim \<Rightarrow> string \<Rightarrow> string \<Rightarrow> Index option \<times> err option" where
  "sim_DeserializeIndex x root identifier =
     (case map_of (indices x) (sim_IndicesAbsPath root identifier) of
        Some i \<Rightarrow> (Some i, None)
      | None \<Rightarrow> (None, Some (Err ''no index'')))"

definition sim_Remove :: "sim \<Rightarrow> string \<Rightarrow> err option \<times> sim" where
  "sim_Remove x p =
     (if p \<in> fst ` set (indices x)
      then (None, x\<lparr>indices := filter (\<lambda>(k, v). k \<noteq> p) (indices x)\<rparr>)
      else (Some (Err ''no such file''), x))"

definition sim_Stat :: "sim \<Rightarrow> string \<Rightarrow> FileInfo option \<times> sim" where
  "sim_Stat x p = (map_of (locals x) p, x)"

definition sim_NewLocalFile :: "string \<Rightarrow> FileInfo \<Rightarrow> File" where
  "sim_NewLocalFile p i =
     \<lparr>Id_f = [], Name = info_name i, IsDir = info_isDir i, Size = info_size i\<rparr>"

definition sim_changeListResolve ::
  "sim \<Rightarrow> string \<Rightarrow> string \<Rightarrow> bool \<Rightarrow> (Change list \<times> err option) \<times> sim" where
  "sim_changeListResolve x rel fsPath isPush =
     (case map_of (pending x) rel of
        Some ccl \<Rightarrow> ((ccl, None), x)
      | None \<Rightarrow> (([], Some (Err ''cannot resolve'')), x))"

definition sim_resolveChangeListRecv ::
  "sim \<Rightarrow> bool \<Rightarrow> string \<Rightarrow> string \<Rightarrow> File option \<Rightarrow> File option
     \<Rightarrow> (Change list \<times> err option) \<times> sim" where
  "sim_resolveChangeListRecv x isPush parent absPath r l =
     (case l of
        None \<Rightarrow> (([], Some (Err ''nothing mounted'')), x)
      | Some lf \<Rightarrow> (([\<lparr>Path = absPath, Src = Some lf, Dest = r\<rparr>], None), x))"

definition sim_answer :: "sim \<Rightarrow> bool \<times> sim" where
  "sim_answer x =
     (case answers x of
        [] \<Rightarrow> (False, x)
      | a # as \<Rightarrow> (a, x\<lparr>answers := as\<rparr>))"

definition sim_conflictsPersist :: "sim \<Rightarrow> Change list \<Rightarrow> bool \<times> sim" where
  "sim_conflictsPersist x cl = (case sim_answer x of (a, x') \<Rightarrow> (\<not> a, x'))"

definition sim_printChangeList :: "sim \<Rightarrow> Change list \<Rightarrow> bool \<Rightarrow> bool \<Rightarrow> bool \<times> sim" where
  "sim_printChangeList x cl noPrompt noClobber =
     (if cl = [] then (False, x) else if noPrompt then (True, x) else sim_answer x)"

definition sim_QuotaStatus :: "sim \<Rightarrow> int \<Rightarrow> (QuotaStatus \<times> err option) \<times> sim" where
  "sim_QuotaStatus x n =
     (if limit x \<le> 0 then ((Ok, Some (Err ''no quota'')), x)
      else if used x + n > limit x then ((Exceeded, None), x)
      else if (used x + n) * 10 > limit x * 9 then ((AlmostExceeded, None), x)
      else ((Ok, None), x))"

definition sim_Join :: "string list \<Rightarrow> string" where
  "sim_Join elems =
     ''/'' @ concat (map (\<lambda>e. e @ ''/'') (butlast (filter (\<lambda>e. e \<noteq> [] \<and> e \<noteq> ''/'') elems)))
       @ (case filter (\<lambda>e. e \<noteq> [] \<and> e \<noteq> ''/'') elems of [] \<Rightarrow> [] | es \<Rightarrow> last es)"

definition sim_dirname :: "string \<Rightarrow> string" where
  "sim_dirname p = fst (filepath_Split p)"

text \<open>One group for every directory that holds a path: the directory and the paths below it.\<close>

definition sim_potentialDirs :: "string list \<Rightarrow> string list list" where
  "sim_potentialDirs paths =
     map (\<lambda>d. d # filter (\<lambda>p. take (length d) p = d) paths)
       (filter (\<lambda>d. d \<noteq> [] \<and> d \<noteq> ''/'') (remdups (map sim_dirname paths)))"

fun lcp :: "string \<Rightarrow> string \<Rightarrow> string" where
  "lcp (x # xs) (y # ys) = (if x = y then x # lcp xs ys else [])"
| "lcp xs ys = []"

definition sim_commonPrefix :: "string list \<Rightarrow> string" where
  "sim_commonPrefix values = (case values of [] \<Rightarrow> [] | v # vs \<Rightarrow> foldl lcp v vs)"

definition simCommands :: "Options \<Rightarrow> sim Commands" where
  "simCommands os =
     \<lparr>opts = os,
      AbsPathOf = (\<lambda>p. ''/home/gd/'' @ p),
      IndicesAbsPath = sim_IndicesAbsPath,
      gopath_Join = sim_Join,
      Op = sim_Op,
      ToIndex = (\<lambda>f. f),
      NewLocalFile = sim_NewLocalFile,
      prettyBytes = (\<lambda>n. ''some bytes''),
      potentialDirs = sim_potentialDirs,
      commonPrefix = sim_commonPrefix,
      sift = sift_spec sim_Op,
      resolveConflicts = resolveConflicts_spec,
      reduceToSize = reduceToSize_spec sim_Op,
      DeserializeIndex = sim_DeserializeIndex,
      FindByPath = sim_FindByPath,
      UpsertByComparison = sim_UpsertByComparison,
      Trash = sim_Trash,
      SerializeIndex = sim_SerializeIndex,
      os_Remove = sim_Remove,
      os_Stat = sim_Stat,
      changeListResolve = sim_changeListResolve,
      resolveChangeListRecv = sim_resolveChangeListRecv,
      conflictsPersist = sim_conflictsPersist,
      printChangeList = sim_printChangeList,
      QuotaStatus = sim_QuotaStatus,
      promptForChanges = sim_answer,
      taskStart = (\<lambda>x n. x),
      taskDone = (\<lambda>x. x),
      taskFinish = (\<lambda>x. x),
      clearMountPoints = (\<lambda>x. x)\<rparr>"

definition simOptions :: Options where
  "simOptions =
     \<lparr>Sources = [''docs''], Mount = None, NoPrompt = False, NoClobber = False,
      TypeMask = 0, IgnoreChecksum = False\<rparr>"

definition rootDir :: File where
  "rootDir = \<lparr>Id_f = ''/'', Name = ''/'', IsDir = True, Size = 0\<rparr>"

definition docsDir :: File where
  "docsDir = \<lparr>Id_f = ''/docs'', Name = ''docs'', IsDir = True, Size = 0\<rparr>"

definition localFile :: "string \<Rightarrow> int \<Rightarrow> File" where
  "localFile n sz = \<lparr>Id_f = [], Name = n, IsDir = False, Size = sz\<rparr>"

definition remoteFile :: "string \<Rightarrow> string \<Rightarrow> int \<Rightarrow> File" where
  "remoteFile i n sz = \<lparr>Id_f = i, Name = n, IsDir = False, Size = sz\<rparr>"

definition simWorld :: "sim \<Rightarrow> sim world" where
  "simWorld x = \<lparr>ext = x, trace = []\<rparr>"

section \<open>Scenarios\<close>

text \<open>Concrete inputs on which the model is evaluated.\<close>

definition oldRemote :: File where
  "oldRemote = remoteFile ''/docs/old.txt'' ''old.txt'' 5"

definition delChange :: Change where
  "delChange = \<lparr>Path = ''/docs/old.txt'', Src = None, Dest = Some oldRemote\<rparr>"

text \<open>The remote file exists and has no local index entry.\<close>

definition simUnindexed :: sim where
  "simUnindexed =
     \<lparr>rfiles = [(''/docs/old.txt'', oldRemote), (''/docs'', docsDir), (''/'', rootDir)],
      indices = [], locals = [], pending = [], answers = [], used = 0, limit = 100\<rparr>"

text \<open>Nothing exists remotely, not even the root.\<close>

definition simEmpty :: sim where
  "simEmpty =
     \<lparr>rfiles = [], indices = [], locals = [], pending = [], answers = [],
      used = 0, limit = 100\<rparr>"

text \<open>Only the root exists remotely.\<close>

definition simRooted :: sim where
  "simRooted =
     \<lparr>rfiles = [(''/'', rootDir)], indices = [], locals = [], pending = [], answers = [],
      used = 0, limit = 100\<rparr>"

text \<open>The world after a first call of \<open>mkdirAll\<close> on \<open>/docs/a\<close>, and the directory it made.\<close>

definition simAfterMkdir :: "sim world" where
  "simAfterMkdir = snd (mkdirAll (simCommands simOptions) ''/docs/a'' (simWorld simRooted))"

definition dirA :: File where
  "dirA = \<lparr>Id_f = ''/docs/a'', Name = ''a'', IsDir = True, Size = 0\<rparr>"





text \<open>
  A push of the source \<open>docs\<close> with one addition and one conflict: the local
  \<open>old.txt\<close> has another size than the remote one, which has no index entry. The
  answers of the user and the used quota vary.
\<close>

definition addNew :: Change where
  "addNew = \<lparr>Path = ''/docs/new.txt'', Src = Some (localFile ''new.txt'' 3), Dest = None\<rparr>"

definition conflictOld :: Change where
  "conflictOld =
     \<lparr>Path = ''/docs/old.txt'', Src = Some (localFile ''old.txt'' 4), Dest = Some oldRemote\<rparr>"

definition simConflict :: "bool list \<Rightarrow> int \<Rightarrow> sim world" where
  "simConflict as u =
     simWorld
       \<lparr>rfiles = [(''/docs/old.txt'', oldRemote), (''/docs'', docsDir), (''/'', rootDir)],
        indices = [], locals = [], pending = [(''docs'', [addNew, conflictOld])],
        answers = as, used = u, limit = 100\<rparr>"

text \<open>
  A push of the source \<open>docs\<close> with an addition of 3 bytes, a deletion of a remote file
  of 5 bytes and a new directory whose local size is 4096.
\<close>

definition addDir :: Change where
  "addDir =
     \<lparr>Path = ''/docs/sub'',
      Src = Some \<lparr>Id_f = [], Name = ''sub'', IsDir = True, Size = 4096\<rparr>, Dest = None\<rparr>"

definition simMixed :: "sim world" where
  "simMixed =
     simWorld
       \<lparr>rfiles = [(''/docs/old.txt'', oldRemote), (''/docs'', docsDir), (''/'', rootDir)],
        indices = [], locals = [], pending = [(''docs'', [addNew, delChange, addDir])],
        answers = [True], used = 0, limit = 100\<rparr>"

text \<open>A push of a source that cannot be resolved.\<close>

definition simNoSource :: "sim Commands" where
  "simNoSource = simCommands (simOptions\<lparr>Sources := [''nope'']\<rparr>)"

text \<open>A push of the source \<open>docs\<close> and of a mount point whose local path is missing.\<close>

definition lostMount :: MountPoint where
  "lostMount = \<lparr>MtName = ''/ext'', MountPath = ''/mnt/ext''\<rparr>"

definition simLostMount :: "sim Commands" where
  "simLostMount = simCommands (simOptions\<lparr>Mount := Some \<lparr>Points = [lostMount]\<rparr>\<rparr>)"

section \<open>Predicates on traces\<close>

text \<open>
  \<open>extends P w w'\<close>: the trace of \<open>w'\<close> is the trace of \<open>w\<close> followed by new events,
  each of which satisfies \<open>P\<close>.
\<close>

definition extends :: "(event \<Rightarrow> bool) \<Rightarrow> 'x world \<Rightarrow> 'x world \<Rightarrow> bool" where
  "extends P w w' \<longleftrightarrow>
     take (length (trace w)) (trace w') = trace w \<and> list_all P (newEvents w w')"

text \<open>A call that changes the remote service or the local index.\<close>

fun isMutation :: "event \<Rightarrow> bool" where
  "isMutation (EvUpsertByComparison a r e) = True"
| "isMutation (EvTrash i e) = True"
| "isMutation (EvSerializeIndex i root e) = True"
| "isMutation (EvRemove p e) = True"
| "isMutation ev = False"

fun isMkdirAll :: "event \<Rightarrow> bool" where
  "isMkdirAll (EvMkdirAll d) = True"
| "isMkdirAll ev = False"

fun isDispatch :: "event \<Rightarrow> bool" where
  "isDispatch (EvDispatch c) = True"
| "isDispatch ev = False"

fun isPrint :: "event \<Rightarrow> bool" where
  "isPrint (EvPrint m) = True"
| "isPrint ev = False"

text \<open>The events of the lines 51 to 70 of \<open>Push\<close>.\<close>

fun gatherEvent :: "event \<Rightarrow> bool" where
  "gatherEvent (EvChangeListResolve rel fsPath isPush ccl e) = True"
| "gatherEvent (EvFindByPath p f e) = True"
| "gatherEvent (EvStat p i) = True"
| "gatherEvent (EvResolveChangeListRecv isPush parent absPath r l ccl e) = True"
| "gatherEvent ev = False"

text \<open>The events of \<open>mkdirAll\<close>.\<close>

fun mkdirEvent :: "event \<Rightarrow> bool" where
  "mkdirEvent (EvMkdirAll d) = True"
| "mkdirEvent (EvFindByPath p f e) = True"
| "mkdirEvent (EvUpsertByComparison a r e) = (dest a = None)"
| "mkdirEvent (EvSerializeIndex i root e) = True"
| "mkdirEvent (EvPrint (MsgSerializeIndex n e)) = True"
| "mkdirEvent ev = False"

text \<open>The events of \<open>remoteMod\<close>.\<close>

fun modEvent :: "event \<Rightarrow> bool" where
  "modEvent (EvFindByPath p f e) = True"
| "modEvent (EvUpsertByComparison a r e) = True"
| "modEvent (EvSerializeIndex i root e) = True"
| "modEvent (EvPrint (MsgSerializeIndex n e)) = True"
| "modEvent (EvPrint (MsgUpsertFailed p e)) = True"
| "modEvent EvTaskDone = True"
| "modEvent ev = False"

text \<open>The events of \<open>remoteDelete\<close>.\<close>

fun delEvent :: "event \<Rightarrow> bool" where
  "delEvent (EvTrash i e) = True"
| "delEvent (EvRemove p e) = True"
| "delEvent (EvPrint (MsgRemoveIndex p i e)) = True"
| "delEvent EvTaskDone = True"
| "delEvent ev = False"

text \<open>The events of \<open>playPushChangeList\<close>.\<close>

definition applyEvent :: "event \<Rightarrow> bool" where
  "applyEvent ev \<longleftrightarrow>
     mkdirEvent ev \<or> modEvent ev \<or> delEvent ev \<or> isDispatch ev
     \<or> ev = EvTaskFinish \<or> (case ev of EvTaskStart n \<Rightarrow> True | _ \<Rightarrow> False)"

text \<open>
  An upsert request with a destination carries a source with the identifier of the
  destination.
\<close>

fun upsertInPlace :: "event \<Rightarrow> bool" where
  "upsertInPlace (EvUpsertByComparison a r e) =
     (case dest a of
        None \<Rightarrow> True
      | Some d \<Rightarrow> (case src a of None \<Rightarrow> False | Some s \<Rightarrow> Id_f s = Id_f d))"
| "upsertInPlace ev = True"

text \<open>The changes for which \<open>f(c)\<close> was called, in the order of the calls.\<close>

fun dispatched :: "event list \<Rightarrow> Change list" where
  "dispatched [] = []"
| "dispatched (EvDispatch c # t) = c # dispatched t"
| "dispatched (ev # t) = dispatched t"




text \<open>
  An upsert request built by \<open>remoteMod\<close> for \<open>change\<close>: its destination is the
  destination of the change and its source is the source of the change, with the
  identifier of the destination when there is one.
\<close>

fun upsertFor :: "Change \<Rightarrow> event \<Rightarrow> bool" where
  "upsertFor change (EvUpsertByComparison a r e) =
     (dest a = Dest change
      \<and> (case Dest change of
            None \<Rightarrow> src a = Src change
          | Some d \<Rightarrow> (case Src change of
                         None \<Rightarrow> False
                       | Some s \<Rightarrow> src a = Some (s\<lparr>Id_f := Id_f d\<rparr>))))"
| "upsertFor change ev = True"




text \<open>The error with which \<open>changeListResolve\<close> failed, when the event is such a failure.\<close>

fun sourceFailure :: "event \<Rightarrow> err option" where
  "sourceFailure (EvChangeListResolve rel fsPath isPush ccl e) = e"
| "sourceFailure ev = None"

text \<open>The error with which \<open>QuotaStatus\<close> failed, when the event is such a failure.\<close>

fun quotaFailure :: "event \<Rightarrow> err option" where
  "quotaFailure (EvQuotaStatus n q e) = e"
| "quotaFailure ev = None"

text \<open>The events of \<open>lonePush\<close>.\<close>

fun mountEvent :: "event \<Rightarrow> bool" where
  "mountEvent (EvFindByPath p f e) = True"
| "mountEvent (EvStat p i) = True"
| "mountEvent (EvResolveChangeListRecv isPush parent absPath r l ccl e) = True"
| "mountEvent ev = False"

text \<open>
  The new events \<open>t\<close> and the result \<open>r\<close> of a run of \<open>playPushChangeList\<close> on \<open>nc\<close>: it
  starts the task counter with the length of the list and returns nil unless it panics.
\<close>

definition playRun :: "Change list \<Rightarrow> err option outcome \<Rightarrow> event list \<Rightarrow> bool" where
  "playRun nc r t \<longleftrightarrow>
     (r = Done None \<or> r = Panic)
     \<and> (\<exists>t'. t = EvTaskStart (length nc) # t')
     \<and> list_all (\<lambda>ev. applyEvent ev \<and> upsertInPlace ev) t"

text \<open>
  What follows the call \<open>QuotaStatus(n)\<close> that returned \<open>(q, e)\<close> in a run of \<open>Push\<close>
  with result \<open>r\<close>.
\<close>

definition quotaTail ::
  "'x Commands \<Rightarrow> int \<Rightarrow> Change list \<Rightarrow> QuotaStatus \<Rightarrow> err option \<Rightarrow> err option outcome
     \<Rightarrow> event list \<Rightarrow> bool" where
  "quotaTail g n nc q e r t \<longleftrightarrow>
     (case e of
        Some qErr \<Rightarrow> t = [] \<and> r = Done (Some qErr)
      | None \<Rightarrow>
          (case q of
             Exceeded \<Rightarrow>
               (\<exists>b t'. t = EvPrint MsgExceeded # EvPrint (MsgProjectedSize n (prettyBytes g n))
                            # EvPromptForChanges b # t'
                  \<and> (if b then playRun nc r t' else t' = [] \<and> r = Done None))
           | AlmostExceeded \<Rightarrow> (\<exists>t'. t = EvPrint MsgAlmostExceeded # t' \<and> playRun nc r t')
           | Ok \<Rightarrow> playRun nc r t))"

text \<open>The prints and the prompt of the quota gate.\<close>

fun gateEvent :: "event \<Rightarrow> bool" where
  "gateEvent (EvPrint MsgExceeded) = True"
| "gateEvent (EvPrint MsgAlmostExceeded) = True"
| "gateEvent (EvPrint (MsgProjectedSize n s)) = True"
| "gateEvent (EvPromptForChanges b) = True"
| "gateEvent ev = False"

fun isTaskStart :: "event \<Rightarrow> bool" where
  "isTaskStart (EvTaskStart n) = True"
| "isTaskStart ev = False"

text \<open>
  The changes that the change resolutions of a trace returned without an error, in the
  order of the calls: the list \<open>cl\<close> of \<open>Push\<close>.
\<close>

fun gathered :: "event list \<Rightarrow> Change list" where
  "gathered [] = []"
| "gathered (EvChangeListResolve rel fsPath isPush ccl None # t) = ccl @ gathered t"
| "gathered (EvResolveChangeListRecv isPush parent absPath r l ccl None # t) = ccl @ gathered t"
| "gathered (ev # t) = gathered t"

fun isResolve :: "event \<Rightarrow> bool" where
  "isResolve (EvChangeListResolve rel fsPath isPush ccl e) = True"
| "isResolve (EvResolveChangeListRecv isPush parent absPath r l ccl e) = True"
| "isResolve ev = False"

text \<open>
  The change list that \<open>printChangeList\<close> received and confirmed: the merged list
  \<open>nonConflicts\<close> of \<open>Push\<close>, which is the list handed to \<open>playPushChangeList\<close>.
\<close>

fun shown :: "event list \<Rightarrow> Change list" where
  "shown [] = []"
| "shown (EvPrintChangeList l noPrompt noClobber True # t) = l @ shown t"
| "shown (ev # t) = shown t"

text \<open>A dispatched change is one of the list \<open>nc\<close>.\<close>

definition within :: "Change list \<Rightarrow> event \<Rightarrow> bool" where
  "within nc ev = (case ev of EvDispatch c \<Rightarrow> c \<in> set nc | _ \<Rightarrow> True)"

text \<open>An addition or a modification of a file that is not a directory.\<close>

definition fileUpsert :: "(Change \<Rightarrow> Operation) \<Rightarrow> Change \<Rightarrow> bool" where
  "fileUpsert op c \<longleftrightarrow>
     (op c = OpAdd \<or> op c = OpMod \<or> op c = OpModConflict)
     \<and> (case Src c of None \<Rightarrow> False | Some f \<Rightarrow> \<not> IsDir f)"

section \<open>Properties\<close>

subsection \<open>Traces\<close>

lemma extends_refl: "extends P w w"
  by (simp add: extends_def newEvents_def)

lemma extendsI: "trace w' = trace w @ t \<Longrightarrow> list_all P t \<Longrightarrow> extends P w w'"
  by (simp add: extends_def newEvents_def)

lemma extendsD: "extends P w w' \<Longrightarrow> trace w' = trace w @ newEvents w w'"
  unfolding extends_def newEvents_def
  by (metis append_take_drop_id)

lemma extends_all: "extends P w w' \<Longrightarrow> list_all P (newEvents w w')"
  by (simp add: extends_def)

lemma extends_trans:
  assumes "extends P w w'" and "extends P w' w''"
  shows "extends P w w''"
proof -
  have "trace w'' = trace w @ (newEvents w w' @ newEvents w' w'')"
    using extendsD [OF assms(1)] extendsD [OF assms(2)] by simp
  moreover have "list_all P (newEvents w w' @ newEvents w' w'')"
    using assms by (simp add: extends_def)
  ultimately show ?thesis by (rule extendsI)
qed

lemma newEvents_append: "trace w' = trace w @ t \<Longrightarrow> newEvents w w' = t"
  by (simp add: newEvents_def)

lemma newEvents_trans:
  assumes "extends P w w'" and "extends Q w' w''"
  shows "newEvents w w'' = newEvents w w' @ newEvents w' w''"
proof -
  have "trace w'' = trace w @ (newEvents w w' @ newEvents w' w'')"
    using extendsD [OF assms(1)] extendsD [OF assms(2)] by simp
  then show ?thesis by (rule newEvents_append)
qed

lemma extends_mono: "extends P w w' \<Longrightarrow> (\<And>e. P e \<Longrightarrow> Q e) \<Longrightarrow> extends Q w w'"
  unfolding extends_def by (auto simp: list_all_iff)

lemma extends_emit: "P e \<Longrightarrow> extends P w (emit e w)"
  by (simp add: extends_def newEvents_def emit_def)

lemma extends_emit_ext: "P e \<Longrightarrow> extends P w (emit e (w\<lparr>ext := x\<rparr>))"
  by (simp add: extends_def newEvents_def emit_def)


lemma call_FindByPath_extends:
  "call_FindByPath g p w = (r, w1) \<Longrightarrow> (\<And>f e. P (EvFindByPath p f e)) \<Longrightarrow> extends P w w1"
  by (auto simp: call_FindByPath_def split: prod.splits intro: extends_emit_ext)

lemma call_taskStart_extends: "P (EvTaskStart n) \<Longrightarrow> extends P w (call_taskStart g n w)"
  by (simp add: call_taskStart_def extends_emit_ext)

lemma call_taskFinish_extends: "P EvTaskFinish \<Longrightarrow> extends P w (call_taskFinish g w)"
  by (simp add: call_taskFinish_def extends_emit_ext)

subsection \<open>The events of mkdirAll, remoteMod and remoteDelete\<close>

lemmas call_defs = call_FindByPath_def call_UpsertByComparison_def call_SerializeIndex_def
  call_Trash_def call_os_Remove_def call_os_Stat_def call_taskDone_def call_taskStart_def
  call_taskFinish_def call_changeListResolve_def call_resolveChangeListRecv_def
  call_conflictsPersist_def call_printChangeList_def call_QuotaStatus_def
  call_promptForChanges_def call_clearMountPoints_def

lemma mkdirAll_create_extends:
  "mkdirAll_create g l p w = (r, w') \<Longrightarrow> extends mkdirEvent w w'"
  by (auto simp: mkdirAll_create_def Let_def call_defs emit_def extends_def newEvents_def
      split: prod.splits option.splits)

lemma mkdirAll_unfold:
  assumes "call_FindByPath g d (emit (EvMkdirAll d) w) = ((retrFile, retryErr), w1)"
    and "filepath_Split (strings_TrimRight d UnescapedPathSep) = (rest, last')"
    and "call_FindByPath g rest w1 = ((parent, parentErr), w2)"
  shows "mkdirAll g d w =
    (if retryErr = None \<and> retrFile \<noteq> None then ((retrFile, None), w1)
     else if rest = [] \<or> last' = [] then ((None, Some (Err ''cannot tamper with root'')), w1)
     else if parentErr \<noteq> None \<and> parentErr \<noteq> Some ErrPathNotExists
       then ((parent, parentErr), w2)
     else (case parent of
             Some p \<Rightarrow> mkdirAll_create g last' p w2
           | None \<Rightarrow>
               (case mkdirAll g rest w2 of
                  ((Some p, None), w3) \<Rightarrow> mkdirAll_create g last' p w3
                | ((parent', parentErr'), w3) \<Rightarrow> ((parent', parentErr'), w3))))"
  by (subst mkdirAll.simps) (simp add: assms)

lemma mkdirAll_entered:
  "mkdirAll g d w = (r, w') \<Longrightarrow> extends mkdirEvent (emit (EvMkdirAll d) w) w'"
proof (induction g d w arbitrary: r w' rule: mkdirAll.induct)
  case (1 g d w)
  obtain retrFile retryErr w1 where
    look: "call_FindByPath g d (emit (EvMkdirAll d) w) = ((retrFile, retryErr), w1)"
    by (metis prod.exhaust)
  let ?w0 = "emit (EvMkdirAll d) w"
  have e1: "extends mkdirEvent ?w0 w1"
    by (rule call_FindByPath_extends [OF look]) simp
  obtain rest last' where
    sp: "filepath_Split (strings_TrimRight d UnescapedPathSep) = (rest, last')"
    by (metis prod.exhaust)
  obtain parent parentErr w2 where
    par: "call_FindByPath g rest w1 = ((parent, parentErr), w2)"
    by (metis prod.exhaust)
  have e2: "extends mkdirEvent ?w0 w2"
    by (rule extends_trans [OF e1 call_FindByPath_extends [OF par]]) simp
  obtain p3 err3 w3 where rec: "mkdirAll g rest w2 = ((p3, err3), w3)"
    by (metis prod.exhaust)
  note unf = mkdirAll_unfold [OF look sp par]
  show ?case
  proof (cases "retryErr = None \<and> retrFile \<noteq> None")
    case True
    then have "mkdirAll g d w = ((retrFile, None), w1)"
      by (auto simp: unf)
    with "1.prems" e1 show ?thesis by simp
  next
    case notfound: False
    show ?thesis
    proof (cases "rest = [] \<or> last' = []")
      case True
      with notfound have "mkdirAll g d w = ((None, Some (Err ''cannot tamper with root'')), w1)"
        by (auto simp: unf)
      with "1.prems" e1 show ?thesis by simp
    next
      case nonroot: False
      show ?thesis
      proof (cases "parentErr \<noteq> None \<and> parentErr \<noteq> Some ErrPathNotExists")
        case True
        with notfound nonroot have "mkdirAll g d w = ((parent, parentErr), w2)"
          by (auto simp: unf)
        with "1.prems" e2 show ?thesis by simp
      next
        case soft: False
        show ?thesis
        proof (cases parent)
          case (Some p)
          with notfound nonroot soft have "mkdirAll g d w = mkdirAll_create g last' p w2"
            by (auto simp: unf)
          with "1.prems" have "mkdirAll_create g last' p w2 = (r, w')" by simp
          from extends_trans [OF e2 mkdirAll_create_extends [OF this]] show ?thesis .
        next
          case None
          have "extends mkdirEvent (emit (EvMkdirAll rest) w2) w3"
            by (rule "1.IH" [OF look [symmetric] refl notfound sp [symmetric] nonroot
                par [symmetric] refl soft None rec])
          then have "extends mkdirEvent w2 w3"
            by (rule extends_trans [OF extends_emit, rotated]) simp
          with e2 have e3: "extends mkdirEvent ?w0 w3"
            by (rule extends_trans)
          from notfound nonroot soft None rec
          have "mkdirAll g d w =
                  (case (p3, err3) of
                     (Some p, None) \<Rightarrow> mkdirAll_create g last' p w3
                   | _ \<Rightarrow> ((p3, err3), w3))"
            by (auto simp: unf split: option.splits)
          with "1.prems" have "(\<exists>p. mkdirAll_create g last' p w3 = (r, w')) \<or> w' = w3"
            by (auto split: option.splits)
          with e3 show ?thesis
            by (auto intro: extends_trans mkdirAll_create_extends)
        qed
      qed
    qed
  qed
qed


lemma mkdirAll_extends: "mkdirAll g d w = (r, w') \<Longrightarrow> extends mkdirEvent w w'"
  by (rule extends_trans [OF extends_emit mkdirAll_entered]) simp_all

lemma newEvents_emit_first:
  assumes "extends P (emit e w) w'"
  shows "newEvents w w' = e # newEvents (emit e w) w'"
proof -
  have "trace w' = trace w @ (e # newEvents (emit e w) w')"
    using extendsD [OF assms] by (simp add: emit_def)
  then show ?thesis by (rule newEvents_append)
qed


lemma remoteMod_extends:
  "remoteMod g change w = (r, w') \<Longrightarrow> extends (\<lambda>ev. modEvent ev \<and> upsertInPlace ev) w w'"
  by (auto simp: remoteMod_def remoteMod_body_def remoteMod_src_def Let_def call_defs emit_def
      extends_def newEvents_def split: prod.splits option.splits outcome.splits)

lemma remoteDelete_extends:
  "remoteDelete g change w = (r, w') \<Longrightarrow> extends delEvent w w'"
  by (auto simp: remoteDelete_def remoteDelete_body_def call_defs emit_def
      extends_def newEvents_def split: prod.splits option.splits)

subsection \<open>The two loops of scheduleUpserts\<close>

lemma dispatched_append: "dispatched (t1 @ t2) = dispatched t1 @ dispatched t2"
  by (induction t1 rule: dispatched.induct) simp_all


lemma dispatched_none: "list_all (\<lambda>ev. \<not> isDispatch ev) t \<Longrightarrow> dispatched t = []"
  by (induction t rule: dispatched.induct) simp_all

lemma mkdirEvent_not_dispatch: "mkdirEvent ev \<Longrightarrow> \<not> isDispatch ev"
  by (cases ev) simp_all

lemma modEvent_not_dispatch: "modEvent ev \<Longrightarrow> \<not> isDispatch ev"
  by (cases ev) simp_all

lemma modEvent_not_mkdir: "modEvent ev \<Longrightarrow> \<not> isMkdirAll ev"
  by (cases ev) simp_all

lemma mkdirEvent_upsertInPlace: "mkdirEvent ev \<Longrightarrow> upsertInPlace ev"
  by (cases ev) simp_all

lemma scheduleUpserts_dirs_extends:
  "scheduleUpserts_dirs g ms w = (r, w') \<Longrightarrow> extends mkdirEvent w w'"
proof (induction ms arbitrary: w)
  case Nil
  then show ?case by (simp add: extends_refl)
next
  case (Cons prefixes ms)
  show ?case
  proof (cases "length prefixes < 1")
    case True
    with Cons show ?thesis by simp
  next
    case False
    obtain dir pErr w1 where
      mk: "mkdirAll g (strings_TrimRight (commonPrefix g prefixes) UnescapedPathSep) w
             = ((dir, pErr), w1)"
      by (metis prod.exhaust)
    have e1: "extends mkdirEvent w w1"
      by (rule mkdirAll_extends [OF mk])
    show ?thesis
    proof (cases pErr)
      case None
      with Cons.prems False mk have "scheduleUpserts_dirs g ms w1 = (r, w')"
        by simp
      from extends_trans [OF e1 Cons.IH [OF this]] show ?thesis .
    next
      case (Some e)
      with Cons.prems False mk have "w' = w1" by simp
      with e1 show ?thesis by simp
    qed
  qed
qed


text \<open>The events of the second loop of scheduleUpserts.\<close>

lemma scheduleUpserts_files_extends:
  assumes f: "\<And>c w r w'. f c w = (r, w') \<Longrightarrow> extends P w w'"
    and d: "\<And>c. P (EvDispatch c)"
  shows "scheduleUpserts_files f cl w = (r, w') \<Longrightarrow> extends P w w'"
proof (induction cl arbitrary: w)
  case Nil
  then show ?case by (simp add: extends_refl)
next
  case (Cons c cl)
  obtain r1 w1 where call: "f c (emit (EvDispatch c) w) = (r1, w1)"
    by (metis prod.exhaust)
  have e1: "extends P w w1"
    by (rule extends_trans [OF extends_emit f [OF call]]) (rule d)
  show ?case
  proof (cases r1)
    case Panic
    with Cons.prems call have "w' = w1" by simp
    with e1 show ?thesis by simp
  next
    case (Done e)
    with Cons.prems call have "scheduleUpserts_files f cl w1 = (r, w')" by simp
    from extends_trans [OF e1 Cons.IH [OF this]] show ?thesis .
  qed
qed

lemma scheduleUpserts_files_dispatched:
  assumes f: "\<And>c w r w'. f c w = (r, w') \<Longrightarrow> extends (\<lambda>ev. \<not> isDispatch ev) w w'"
  shows "scheduleUpserts_files f cl w = (Done u, w') \<Longrightarrow> dispatched (newEvents w w') = cl"
proof (induction cl arbitrary: w)
  case Nil
  then show ?case by (simp add: newEvents_def)
next
  case (Cons c cl)
  obtain r1 w1 where call: "f c (emit (EvDispatch c) w) = (r1, w1)"
    by (metis prod.exhaust)
  from Cons.prems call have rest: "scheduleUpserts_files f cl w1 = (Done u, w')"
    by (auto split: outcome.splits)
  have e0: "extends (\<lambda>ev. True) w (emit (EvDispatch c) w)"
    by (rule extends_emit) simp
  have e1: "extends (\<lambda>ev. \<not> isDispatch ev) (emit (EvDispatch c) w) w1"
    by (rule f [OF call])
  have e2: "extends (\<lambda>ev. True) w1 w'"
    by (rule scheduleUpserts_files_extends [OF _ _ rest]) (auto intro: extends_mono [OF f])
  have "newEvents w w' = newEvents w w1 @ newEvents w1 w'"
    by (rule newEvents_trans [OF extends_trans [OF e0 extends_mono [OF e1]] e2]) simp_all
  also have "newEvents w w1 = EvDispatch c # newEvents (emit (EvDispatch c) w) w1"
    by (rule newEvents_emit_first [OF e1])
  finally show ?case
    using Cons.IH [OF rest] dispatched_none [OF extends_all [OF e1]]
    by (simp add: dispatched_append)
qed

lemma remoteMod_no_dispatch:
  "remoteMod g c w = (r, w') \<Longrightarrow> extends (\<lambda>ev. \<not> isDispatch ev) w w'"
  by (rule extends_mono [OF remoteMod_extends]) (auto dest: modEvent_not_dispatch)

lemma scheduleUpserts_shape:
  assumes run: "scheduleUpserts g cl (remoteMod g) w = (r, w')"
    and dirs: "scheduleUpserts_dirs g (potentialDirs g (map Path cl)) w = (pErr, w1)"
  shows "extends mkdirEvent w w1"
    and "extends (\<lambda>ev. (modEvent ev \<or> isDispatch ev) \<and> upsertInPlace ev) w1 w'"
    and "pErr \<noteq> None \<Longrightarrow> w' = w1 \<and> r = Done pErr"
    and "pErr = None \<Longrightarrow> r = Done None \<Longrightarrow> dispatched (newEvents w1 w') = cl"
    and "pErr = None \<Longrightarrow> r = Done None \<or> r = Panic"
proof -
  show e1: "extends mkdirEvent w w1"
    by (rule scheduleUpserts_dirs_extends [OF dirs])
  obtain r2 w2 where files: "scheduleUpserts_files (remoteMod g) cl w1 = (r2, w2)"
    by (metis prod.exhaust)
  have e2: "extends (\<lambda>ev. (modEvent ev \<or> isDispatch ev) \<and> upsertInPlace ev) w1 w2"
    by (rule scheduleUpserts_files_extends [OF _ _ files])
      (auto intro: extends_mono [OF remoteMod_extends])
  show "pErr \<noteq> None \<Longrightarrow> w' = w1 \<and> r = Done pErr"
    using run dirs by (auto simp: scheduleUpserts_def)
  have w': "pErr = None \<Longrightarrow> w' = w2"
    using run dirs files by (auto simp: scheduleUpserts_def split: outcome.splits)
  show "extends (\<lambda>ev. (modEvent ev \<or> isDispatch ev) \<and> upsertInPlace ev) w1 w'"
  proof (cases pErr)
    case None
    with w' e2 show ?thesis by simp
  next
    case (Some e)
    with run dirs have "w' = w1" by (simp add: scheduleUpserts_def)
    then show ?thesis by (simp add: extends_refl)
  qed
  show "pErr = None \<Longrightarrow> r = Done None \<or> r = Panic"
    using run dirs files by (auto simp: scheduleUpserts_def split: outcome.splits)
  show "pErr = None \<Longrightarrow> r = Done None \<Longrightarrow> dispatched (newEvents w1 w') = cl"
  proof -
    assume p: "pErr = None" and r: "r = Done None"
    from run dirs files p r obtain u where "r2 = Done u"
      by (auto simp: scheduleUpserts_def split: outcome.splits)
    with files have "scheduleUpserts_files (remoteMod g) cl w1 = (Done u, w2)" by simp
    from scheduleUpserts_files_dispatched [OF remoteMod_no_dispatch this] w' [OF p]
    show ?thesis by simp
  qed
qed


lemma remoteMod_upsertFor:
  "remoteMod g change w = (r, w') \<Longrightarrow> list_all (upsertFor change) (newEvents w w')"
  by (auto simp: remoteMod_def remoteMod_body_def remoteMod_src_def Let_def call_defs emit_def
      newEvents_def split: prod.splits option.splits outcome.splits)












lemma scheduleDels_extends: "scheduleDels g cl w = (r, w') \<Longrightarrow> extends delEvent w w'"
proof (induction cl arbitrary: w)
  case Nil
  then show ?case by (simp add: extends_refl)
next
  case (Cons c cl)
  obtain r1 w1 where del: "remoteDelete g c w = (r1, w1)"
    by (metis prod.exhaust)
  note e1 = remoteDelete_extends [OF del]
  show ?case
  proof (cases r1)
    case Panic
    with Cons.prems del e1 show ?thesis by simp
  next
    case (Done e)
    with Cons.prems del have "scheduleDels g cl w1 = (r, w')" by simp
    from extends_trans [OF e1 Cons.IH [OF this]] show ?thesis .
  qed
qed

lemma delEvent_upsertInPlace: "delEvent ev \<Longrightarrow> upsertInPlace ev"
  by (cases ev) simp_all

lemma scheduleUpserts_extends:
  assumes "scheduleUpserts g cl (remoteMod g) w = (r, w')"
  shows "extends (\<lambda>ev. applyEvent ev \<and> upsertInPlace ev) w w'"
proof -
  obtain pErr w1 where
    dirs: "scheduleUpserts_dirs g (potentialDirs g (map Path cl)) w = (pErr, w1)"
    by (metis prod.exhaust)
  note sh = scheduleUpserts_shape [OF assms dirs]
  have "extends (\<lambda>ev. applyEvent ev \<and> upsertInPlace ev) w w1"
    by (rule extends_mono [OF sh(1)]) (simp add: applyEvent_def mkdirEvent_upsertInPlace)
  moreover have "extends (\<lambda>ev. applyEvent ev \<and> upsertInPlace ev) w1 w'"
    by (rule extends_mono [OF sh(2)]) (auto simp: applyEvent_def)
  ultimately show ?thesis by (rule extends_trans)
qed

lemma playPushChangeList_entered:
  assumes "playPushChangeList g cl w = (r, w')"
  shows "extends (\<lambda>ev. applyEvent ev \<and> upsertInPlace ev) (call_taskStart g (length cl) w) w'"
proof -
  let ?P = "\<lambda>ev. applyEvent ev \<and> upsertInPlace ev"
  let ?w0 = "call_taskStart g (length cl) w"
  obtain adds mods dels where
    gr: "playPushChangeList_groups g cl ([], [], []) = (adds, mods, dels)"
    by (metis prod.exhaust)
  obtain r1 w1 where a: "scheduleUpserts g adds (remoteMod g) ?w0 = (r1, w1)"
    by (metis prod.exhaust)
  obtain r2 w2 where m: "scheduleUpserts g mods (remoteMod g) w1 = (r2, w2)"
    by (metis prod.exhaust)
  obtain r3 w3 where d: "scheduleDels g dels w2 = (r3, w3)"
    by (metis prod.exhaust)
  have same: "remoteAdd g = remoteMod g"
    by (rule ext)+ (simp add: remoteAdd_def)
  note e1 = scheduleUpserts_extends [OF a]
  note e2 = extends_trans [OF e1 scheduleUpserts_extends [OF m]]
  have "extends ?P w2 w3"
    by (rule extends_mono [OF scheduleDels_extends [OF d]])
      (simp add: applyEvent_def delEvent_upsertInPlace)
  note e3 = extends_trans [OF e2 this]
  have "extends ?P w3 (call_taskFinish g w3)"
    by (rule call_taskFinish_extends) (simp add: applyEvent_def)
  note e4 = extends_trans [OF e3 this]
  from assms gr a m d have "w' = w1 \<or> w' = w2 \<or> w' = w3 \<or> w' = call_taskFinish g w3"
    by (auto simp: playPushChangeList_def scheduleAdds_def scheduleMods_def same
        split: outcome.splits)
  with e1 e2 e3 e4 show ?thesis by auto
qed

lemma playPushChangeList_extends:
  assumes "playPushChangeList g cl w = (r, w')"
  shows "extends (\<lambda>ev. applyEvent ev \<and> upsertInPlace ev) w w'"
  by (rule extends_trans [OF call_taskStart_extends playPushChangeList_entered [OF assms]])
    (simp add: applyEvent_def)

lemma playPushChangeList_first:
  assumes "playPushChangeList g cl w = (r, w')"
  shows "\<exists>t. newEvents w w' = EvTaskStart (length cl) # t"
proof -
  have "extends (\<lambda>ev. applyEvent ev \<and> upsertInPlace ev)
          (emit (EvTaskStart (length cl)) (w\<lparr>ext := taskStart g (ext w) (length cl)\<rparr>)) w'"
    using playPushChangeList_entered [OF assms] by (simp add: call_taskStart_def)
  from extendsD [OF this] have "trace w' = trace w @ (EvTaskStart (length cl) #
      newEvents (emit (EvTaskStart (length cl)) (w\<lparr>ext := taskStart g (ext w) (length cl)\<rparr>)) w')"
    by (simp add: emit_def)
  then show ?thesis by (metis newEvents_append)
qed




subsection \<open>Gathering the change list\<close>

lemma lonePush_extends:
  "lonePush g parent absPath path w = (r, w') \<Longrightarrow> extends mountEvent w w'"
  by (auto simp: lonePush_def call_defs emit_def extends_def newEvents_def
      split: prod.splits option.splits if_splits)

lemma Push_mounts_extends:
  "Push_mounts g root points cl w = (cl', w') \<Longrightarrow> extends mountEvent w w'"
proof (induction points arbitrary: cl w)
  case Nil
  then show ?case by (simp add: extends_refl)
next
  case (Cons mt points)
  obtain ccl cerr w1 where lp: "lonePush g root (MtName mt) (MountPath mt) w = ((ccl, cerr), w1)"
    by (metis prod.exhaust)
  with Cons.prems
  have "Push_mounts g root points (if cerr = None then cl @ ccl else cl) w1 = (cl', w')"
    by simp
  from extends_trans [OF lonePush_extends [OF lp] Cons.IH [OF this]] show ?case .
qed

lemma call_changeListResolve_new:
  "call_changeListResolve g rel fs b w = ((ccl, e), w1) \<Longrightarrow>
     trace w1 = trace w @ [EvChangeListResolve rel fs b ccl e]"
  by (auto simp: call_changeListResolve_def emit_def split: prod.splits)

text \<open>
  The first loop of Push: its events are calls of changeListResolve; a failed one is the
  last of them and its error is the result.
\<close>

lemma Push_sources_shape:
  "Push_sources g sources cl w = (r, w') \<Longrightarrow>
     extends (\<lambda>ev. gatherEvent ev \<and> \<not> mountEvent ev
                \<and> (\<forall>e. sourceFailure ev = Some e \<longrightarrow> r = Inl e)) w w'
     \<and> (\<forall>e. r = Inl e \<longrightarrow> (\<exists>ev \<in> set (newEvents w w'). sourceFailure ev = Some e))"
proof (induction sources arbitrary: cl w)
  case Nil
  then show ?case by (auto simp: extends_refl)
next
  case (Cons rel sources)
  let ?P = "\<lambda>ev. gatherEvent ev \<and> \<not> mountEvent ev
                \<and> (\<forall>e. sourceFailure ev = Some e \<longrightarrow> r = Inl e)"
  obtain ccl cErr w1 where
    call: "call_changeListResolve g rel (AbsPathOf g rel) True w = ((ccl, cErr), w1)"
    by (metis prod.exhaust)
  note tr = call_changeListResolve_new [OF call]
  show ?case
  proof (cases cErr)
    case (Some e)
    with Cons.prems call have r: "r = Inl e" and w': "w' = w1" by auto
    have "extends ?P w w1"
      by (rule extendsI [OF tr]) (simp add: r Some)
    moreover have "newEvents w w1 = [EvChangeListResolve rel (AbsPathOf g rel) True ccl cErr]"
      by (rule newEvents_append [OF tr])
    ultimately show ?thesis
      using r w' Some by auto
  next
    case None
    with Cons.prems call
    have rest: "Push_sources g sources (if length ccl > 0 then cl @ ccl else cl) w1 = (r, w')"
      by simp
    have e1: "extends ?P w w1"
      by (rule extendsI [OF tr]) (simp add: None)
    from Cons.IH [OF rest] have e2: "extends ?P w1 w'"
      and ex: "\<forall>e. r = Inl e \<longrightarrow> (\<exists>ev \<in> set (newEvents w1 w'). sourceFailure ev = Some e)"
      by blast+
    have "newEvents w w' = newEvents w w1 @ newEvents w1 w'"
      by (rule newEvents_trans [OF e1 e2])
    with ex extends_trans [OF e1 e2] show ?thesis by auto
  qed
qed

lemma Push_gather_shape:
  assumes "Push_gather g w = (r, w')"
  shows "extends (\<lambda>ev. gatherEvent ev \<and> (\<forall>e. sourceFailure ev = Some e \<longrightarrow> r = Inl e)) w w'"
    and "\<forall>e. r = Inl e \<longrightarrow> (\<exists>ev \<in> set (newEvents w w'). sourceFailure ev = Some e)"
proof -
  let ?P = "\<lambda>ev. gatherEvent ev \<and> (\<forall>e. sourceFailure ev = Some e \<longrightarrow> r = Inl e)"
  obtain r1 w1 where src: "Push_sources g (Sources (opts g)) [] w = (r1, w1)"
    by (metis prod.exhaust)
  note sh = Push_sources_shape [OF src]
  show "extends ?P w w'"
  proof (cases r1)
    case (Inl e)
    with assms src have "r = r1" "w' = w1" by (auto simp: Push_gather_def)
    with sh show ?thesis by (auto elim: extends_mono)
  next
    case (Inr cl)
    show ?thesis
    proof (cases "Mount (opts g)")
      case None
      with assms src Inr have "r = r1" "w' = w1" by (auto simp: Push_gather_def)
      with sh show ?thesis by (auto elim: extends_mono)
    next
      case (Some mount)
      obtain cl' w2 where mts: "Push_mounts g (AbsPathOf g []) (Points mount) cl w1 = (cl', w2)"
        by (metis prod.exhaust)
      with assms src Inr Some have r: "r = Inr cl'" and w': "w' = w2"
        by (auto simp: Push_gather_def)
      have "extends ?P w w1"
        using sh Inr r by (auto elim!: extends_mono)
      moreover have "extends ?P w1 w2"
        by (rule extends_mono [OF Push_mounts_extends [OF mts]]) (case_tac e; simp)
      ultimately show ?thesis
        unfolding w' by (rule extends_trans)
    qed
  qed
  show "\<forall>e. r = Inl e \<longrightarrow> (\<exists>ev \<in> set (newEvents w w'). sourceFailure ev = Some e)"
  proof (intro allI impI)
    fix e assume "r = Inl e"
    with assms src have "r1 = Inl e" "w' = w1"
      by (auto simp: Push_gather_def split: sum.splits option.splits prod.splits)
    with sh show "\<exists>ev \<in> set (newEvents w w'). sourceFailure ev = Some e" by auto
  qed
qed

lemma gathered_append: "gathered (t1 @ t2) = gathered t1 @ gathered t2"
  by (induction t1 rule: gathered.induct) simp_all

lemma gathered_none: "list_all (\<lambda>ev. \<not> isResolve ev) t \<Longrightarrow> gathered t = []"
  by (induction t rule: gathered.induct) simp_all

lemma lonePush_gathered:
  "lonePush g parent absPath path w = ((ccl, cerr), w') \<Longrightarrow>
     gathered (newEvents w w') = (if cerr = None then ccl else [])"
  by (auto simp: lonePush_def call_defs emit_def newEvents_def
      split: prod.splits option.splits if_splits)

lemma Push_mounts_gathered:
  "Push_mounts g root points cl w = (cl', w') \<Longrightarrow> cl' = cl @ gathered (newEvents w w')"
proof (induction points arbitrary: cl w)
  case Nil
  then show ?case by (simp add: newEvents_def)
next
  case (Cons mt points)
  obtain ccl cerr w1 where lp: "lonePush g root (MtName mt) (MountPath mt) w = ((ccl, cerr), w1)"
    by (metis prod.exhaust)
  with Cons.prems
  have rest: "Push_mounts g root points (if cerr = None then cl @ ccl else cl) w1 = (cl', w')"
    by simp
  have "newEvents w w' = newEvents w w1 @ newEvents w1 w'"
    by (rule newEvents_trans [OF lonePush_extends [OF lp] Push_mounts_extends [OF rest]])
  with Cons.IH [OF rest] lonePush_gathered [OF lp] show ?case
    by (simp add: gathered_append)
qed

lemma Push_sources_gathered:
  "Push_sources g sources cl w = (Inr cl', w') \<Longrightarrow> cl' = cl @ gathered (newEvents w w')"
proof (induction sources arbitrary: cl w)
  case Nil
  then show ?case by (simp add: newEvents_def)
next
  case (Cons rel sources)
  obtain ccl cErr w1 where
    call: "call_changeListResolve g rel (AbsPathOf g rel) True w = ((ccl, cErr), w1)"
    by (metis prod.exhaust)
  note tr = call_changeListResolve_new [OF call]
  from Cons.prems call have ok: "cErr = None"
    by (cases cErr) auto
  with Cons.prems call
  have rest: "Push_sources g sources (if length ccl > 0 then cl @ ccl else cl) w1 = (Inr cl', w')"
    by simp
  have e1: "extends (\<lambda>ev. True) w w1"
    by (rule extendsI [OF tr]) simp
  have e2: "extends (\<lambda>ev. True) w1 w'"
    using Push_sources_shape [OF rest] by (auto elim: extends_mono)
  have "newEvents w w' = newEvents w w1 @ newEvents w1 w'"
    by (rule newEvents_trans [OF e1 e2])
  moreover have "newEvents w w1 = [EvChangeListResolve rel (AbsPathOf g rel) True ccl None]"
    using newEvents_append [OF tr] ok by simp
  ultimately show ?case
    using Cons.IH [OF rest] by (simp add: gathered_append)
qed

lemma Push_gather_gathered:
  assumes "Push_gather g w = (Inr cl, w')"
  shows "cl = gathered (newEvents w w')"
proof -
  obtain r1 w1 where src: "Push_sources g (Sources (opts g)) [] w = (r1, w1)"
    by (metis prod.exhaust)
  with assms obtain cl1 where r1: "r1 = Inr cl1"
    by (cases r1) (auto simp: Push_gather_def)
  note g1 = Push_sources_gathered [OF src [unfolded r1]]
  show ?thesis
  proof (cases "Mount (opts g)")
    case None
    with assms src r1 g1 show ?thesis by (auto simp: Push_gather_def)
  next
    case (Some mount)
    obtain cl' w2 where mts: "Push_mounts g (AbsPathOf g []) (Points mount) cl1 w1 = (cl', w2)"
      by (metis prod.exhaust)
    with assms src r1 Some have "cl = cl'" "w' = w2"
      by (auto simp: Push_gather_def)
    moreover have "newEvents w w2 = newEvents w w1 @ newEvents w1 w2"
      using Push_sources_shape [OF src]
      by (intro newEvents_trans [OF _ Push_mounts_extends [OF mts]]) blast
    ultimately show ?thesis
      using Push_mounts_gathered [OF mts] g1 by (simp add: gathered_append)
  qed
qed


subsection \<open>Conflicts and quota\<close>

lemma Push_merge_shape:
  assumes "Push_merge g cl w = (r, w')"
  shows "\<exists>t. trace w' = trace w @ t
           \<and> (case r of
                None \<Rightarrow> (\<exists>u. t = [EvConflictsPersist u True])
              | Some nc \<Rightarrow> t = [] \<or> (\<exists>u. t = [EvConflictsPersist u False]))"
  using assms
  by (auto simp: Push_merge_def call_defs emit_def split: prod.splits if_splits bool.splits)

lemma playPushChangeList_result:
  "playPushChangeList g cl w = (r, w') \<Longrightarrow> r = Done None \<or> r = Panic"
  by (auto simp: playPushChangeList_def split: prod.splits outcome.splits)

lemma playPushChangeList_playRun:
  assumes "playPushChangeList g nc w0 = (r, w')"
  shows "playRun nc r (newEvents w0 w')"
  unfolding playRun_def
  using playPushChangeList_result [OF assms] playPushChangeList_first [OF assms]
    extends_all [OF playPushChangeList_extends [OF assms]]
  by simp

lemma Push_quota_tail:
  assumes "Push_quota g cl nc w = (r, w')"
  shows "\<exists>q e t. trace w' = trace w @ EvQuotaStatus (reduceToSize g cl True) q e # t
           \<and> quotaTail g (reduceToSize g cl True) nc q e r t"
proof -
  let ?n = "reduceToSize g cl True"
  obtain q e w1 where qs: "call_QuotaStatus g ?n w = ((q, e), w1)"
    by (metis prod.exhaust)
  then have t1: "trace w1 = trace w @ [EvQuotaStatus ?n q e]"
    by (auto simp: call_QuotaStatus_def emit_def split: prod.splits)
  have play: "trace w' = trace w0 @ newEvents w0 w' \<and> playRun nc r (newEvents w0 w')"
    if "playPushChangeList g nc w0 = (r, w')" for w0
    using extendsD [OF playPushChangeList_extends [OF that]] playPushChangeList_playRun [OF that]
    by blast
  show ?thesis
  proof (cases e)
    case (Some qErr)
    with assms qs have "r = Done (Some qErr)" "w' = w1"
      by (simp_all add: Push_quota_def Let_def)
    with t1 Some have "trace w' = trace w @ EvQuotaStatus ?n q e # []"
      and "quotaTail g ?n nc q e r []"
      by (simp_all add: quotaTail_def)
    then show ?thesis by blast
  next
    case None
    show ?thesis
    proof (cases q)
      case Ok
      with assms qs None have p: "playPushChangeList g nc w1 = (r, w')"
        by (simp add: Push_quota_def Let_def)
      from play [OF p] t1 have "trace w' = trace w @ EvQuotaStatus ?n q e # newEvents w1 w'"
        and "quotaTail g ?n nc q e r (newEvents w1 w')"
        by (simp_all add: quotaTail_def None Ok)
      then show ?thesis by blast
    next
      case AlmostExceeded
      let ?w2 = "emit (EvPrint MsgAlmostExceeded) w1"
      from assms qs None AlmostExceeded have p: "playPushChangeList g nc ?w2 = (r, w')"
        by (simp add: Push_quota_def Let_def)
      from play [OF p] t1
      have "trace w' = trace w @ EvQuotaStatus ?n q e
              # (EvPrint MsgAlmostExceeded # newEvents ?w2 w')"
        and "quotaTail g ?n nc q e r (EvPrint MsgAlmostExceeded # newEvents ?w2 w')"
        by (simp_all add: quotaTail_def None AlmostExceeded emit_def)
      then show ?thesis by blast
    next
      case Exceeded
      let ?w2 = "emit (EvPrint (MsgProjectedSize ?n (prettyBytes g ?n)))
                   (emit (EvPrint MsgExceeded) w1)"
      let ?head = "\<lambda>b. [EvPrint MsgExceeded, EvPrint (MsgProjectedSize ?n (prettyBytes g ?n)),
                         EvPromptForChanges b]"
      obtain b w3 where pr: "call_promptForChanges g ?w2 = (b, w3)"
        by (metis prod.exhaust)
      then have t3: "trace w3 = trace w @ EvQuotaStatus ?n q e # ?head b"
        using t1 by (auto simp: call_promptForChanges_def emit_def split: prod.splits)
      show ?thesis
      proof (cases b)
        case True
        with assms qs None Exceeded pr have p: "playPushChangeList g nc w3 = (r, w')"
          by (simp add: Push_quota_def Let_def)
        from play [OF p] t3 True
        have "trace w' = trace w @ EvQuotaStatus ?n q e # (?head True @ newEvents w3 w')"
          and "quotaTail g ?n nc q e r (?head True @ newEvents w3 w')"
          by (auto simp: quotaTail_def None Exceeded)
        then show ?thesis by blast
      next
        case False
        with assms qs None Exceeded pr have "r = Done None" "w' = w3"
          by (simp_all add: Push_quota_def Let_def)
        with t3 False have "trace w' = trace w @ EvQuotaStatus ?n q e # ?head False"
          and "quotaTail g ?n nc q e r (?head False)"
          by (auto simp: quotaTail_def None Exceeded)
        then show ?thesis by blast
      qed
    qed
  qed
qed

text \<open>The list that is shown, measured and applied.\<close>

lemma shown_append: "shown (t1 @ t2) = shown t1 @ shown t2"
  by (induction t1 rule: shown.induct) simp_all

lemma shown_none:
  "list_all P t \<Longrightarrow> (\<And>l a b. \<not> P (EvPrintChangeList l a b True)) \<Longrightarrow> shown t = []"
  by (induction t rule: shown.induct) auto

lemma count_list_filter_split:
  "count_list (filter P l) c + count_list (filter (\<lambda>x. \<not> P x) l) c = count_list l c"
  by (induction l) auto

lemma sum_list_filter_split:
  "sum_list (map f (filter P l)) + sum_list (map f (filter (\<lambda>x. \<not> P x) l))
     = (sum_list (map f l) :: int)"
  by (induction l) simp_all

lemma sum_list_filter_zero:
  "(\<And>x. x \<in> set l \<Longrightarrow> \<not> P x \<Longrightarrow> f x = 0) \<Longrightarrow>
     sum_list (map f (filter P l)) = (sum_list (map f l) :: int)"
  by (induction l) simp_all

lemma Push_merge_list:
  assumes "Push_merge g cl w = (Some nc, w')"
  shows "nc = fst (sift g cl)
            @ fst (resolveConflicts g (snd (sift g cl)) True (deserializeIndex g (ext w)))
            @ snd (resolveConflicts g (snd (sift g cl)) True (deserializeIndex g (ext w)))"
  using assms
  by (auto simp: Push_merge_def call_conflictsPersist_def Suc_le_eq
      split: prod.splits if_splits bool.splits)

lemma merge_spec_count:
  "count_list (fst (sift_spec op cl)
      @ fst (resolveConflicts_spec (snd (sift_spec op cl)) b lookup)
      @ snd (resolveConflicts_spec (snd (sift_spec op cl)) b lookup)) c = count_list cl c"
proof -
  let ?conf = "filter (\<lambda>c. op c = OpModConflict) cl"
  let ?stale = "\<lambda>c. case Dest c of None \<Rightarrow> False | Some d \<Rightarrow> lookup (Id_f d) = Some d"
  have "count_list (filter ?stale ?conf) c + count_list (filter (\<lambda>x. \<not> ?stale x) ?conf) c
          = count_list ?conf c"
    by (rule count_list_filter_split)
  moreover have "count_list (filter (\<lambda>c. op c \<noteq> OpModConflict) cl) c + count_list ?conf c
          = count_list cl c"
    using count_list_filter_split [of "\<lambda>c. op c \<noteq> OpModConflict" cl c] by simp
  ultimately show ?thesis
    by (simp add: sift_spec_def resolveConflicts_spec_def Let_def)
qed

lemma merge_spec_size:
  "reduceToSize_spec op' (fst (sift_spec op cl)
      @ fst (resolveConflicts_spec (snd (sift_spec op cl)) b lookup)
      @ snd (resolveConflicts_spec (snd (sift_spec op cl)) b lookup)) s
     = reduceToSize_spec op' cl s"
proof -
  let ?f = "changeSize op' s"
  let ?conf = "filter (\<lambda>c. op c = OpModConflict) cl"
  let ?stale = "\<lambda>c. case Dest c of None \<Rightarrow> False | Some d \<Rightarrow> lookup (Id_f d) = Some d"
  have "sum_list (map ?f (filter ?stale ?conf)) + sum_list (map ?f (filter (\<lambda>x. \<not> ?stale x) ?conf))
          = sum_list (map ?f ?conf)"
    by (rule sum_list_filter_split)
  moreover have "sum_list (map ?f (filter (\<lambda>c. op c \<noteq> OpModConflict) cl)) + sum_list (map ?f ?conf)
          = sum_list (map ?f cl)"
    using sum_list_filter_split [of ?f "\<lambda>c. op c \<noteq> OpModConflict" cl] by simp
  ultimately show ?thesis
    by (simp add: sift_spec_def resolveConflicts_spec_def reduceToSize_spec_def Let_def)
qed

lemma reduceToSize_spec_counted:
  "reduceToSize_spec op (filter (fileUpsert op) l) True = reduceToSize_spec op l True"
  unfolding reduceToSize_spec_def
  by (rule sum_list_filter_zero) (auto simp: changeSize_def fileUpsert_def split: option.splits)

lemma dispatched_within: "list_all (within nc) t \<Longrightarrow> set (dispatched t) \<subseteq> set nc"
  by (induction t rule: dispatched.induct) (simp_all add: within_def)

lemma not_dispatch_within: "\<not> isDispatch ev \<Longrightarrow> within nc ev"
  by (cases ev) (simp_all add: within_def)

lemma delEvent_within: "delEvent ev \<Longrightarrow> within nc ev"
  by (cases ev) (simp_all add: within_def)

lemma scheduleUpserts_files_within:
  assumes f: "\<And>c w r w'. f c w = (r, w') \<Longrightarrow> extends (\<lambda>ev. \<not> isDispatch ev) w w'"
  shows "scheduleUpserts_files f cl w = (r, w') \<Longrightarrow> set cl \<subseteq> set nc \<Longrightarrow>
           extends (within nc) w w'"
proof (induction cl arbitrary: w)
  case Nil
  then show ?case by (simp add: extends_refl)
next
  case (Cons c cl)
  obtain r1 w1 where call: "f c (emit (EvDispatch c) w) = (r1, w1)"
    by (metis prod.exhaust)
  have "extends (within nc) (emit (EvDispatch c) w) w1"
    by (rule extends_mono [OF f [OF call]]) (rule not_dispatch_within)
  moreover have "within nc (EvDispatch c)"
    using Cons.prems(2) by (simp add: within_def)
  ultimately have e1: "extends (within nc) w w1"
    by (metis extends_emit extends_trans)
  show ?case
  proof (cases r1)
    case Panic
    with Cons.prems call have "w' = w1" by simp
    with e1 show ?thesis by simp
  next
    case (Done e)
    with Cons.prems call have "scheduleUpserts_files f cl w1 = (r, w')" by simp
    from Cons.IH [OF this] Cons.prems(2) have "extends (within nc) w1 w'" by simp
    with e1 show ?thesis by (rule extends_trans)
  qed
qed

lemma scheduleUpserts_within:
  assumes run: "scheduleUpserts g cl (remoteMod g) w = (r, w')"
    and sub: "set cl \<subseteq> set nc"
  shows "extends (within nc) w w'"
proof -
  obtain pErr w1 where
    dirs: "scheduleUpserts_dirs g (potentialDirs g (map Path cl)) w = (pErr, w1)"
    by (metis prod.exhaust)
  obtain r2 w2 where files: "scheduleUpserts_files (remoteMod g) cl w1 = (r2, w2)"
    by (metis prod.exhaust)
  have e1: "extends (within nc) w w1"
    by (rule extends_mono [OF scheduleUpserts_dirs_extends [OF dirs]])
      (auto dest: mkdirEvent_not_dispatch intro: not_dispatch_within)
  have e2: "extends (within nc) w1 w2"
    by (rule scheduleUpserts_files_within [OF remoteMod_no_dispatch files sub])
  from run dirs files have "w' = w1 \<or> w' = w2"
    by (auto simp: scheduleUpserts_def split: option.splits outcome.splits)
  with e1 extends_trans [OF e1 e2] show ?thesis by auto
qed

lemma playPushChangeList_groups_subset:
  "set (fst (playPushChangeList_groups g cl (adds, mods, dels))) \<subseteq> set adds \<union> set cl
   \<and> set (fst (snd (playPushChangeList_groups g cl (adds, mods, dels)))) \<subseteq> set mods \<union> set cl"
proof (induction cl arbitrary: adds mods dels)
  case Nil
  then show ?case by simp
next
  case (Cons c cl)
  show ?case
    using Cons.IH [of "adds @ [c]" mods dels] Cons.IH [of adds "mods @ [c]" dels]
      Cons.IH [of adds mods "dels @ [c]"] Cons.IH [of adds mods dels]
    by (cases "Op g c") auto
qed

lemma playPushChangeList_within:
  assumes "playPushChangeList g nc w = (r, w')"
  shows "extends (within nc) w w'"
proof -
  let ?w0 = "call_taskStart g (length nc) w"
  obtain adds mods dels where
    gr: "playPushChangeList_groups g nc ([], [], []) = (adds, mods, dels)"
    by (metis prod.exhaust)
  from playPushChangeList_groups_subset [of g nc "[]" "[]" "[]"]
  have sa: "set adds \<subseteq> set nc" and sm: "set mods \<subseteq> set nc" by (simp_all add: gr)
  obtain r1 w1 where a: "scheduleUpserts g adds (remoteMod g) ?w0 = (r1, w1)"
    by (metis prod.exhaust)
  obtain r2 w2 where m: "scheduleUpserts g mods (remoteMod g) w1 = (r2, w2)"
    by (metis prod.exhaust)
  obtain r3 w3 where d: "scheduleDels g dels w2 = (r3, w3)"
    by (metis prod.exhaust)
  have same: "remoteAdd g = remoteMod g"
    by (rule ext)+ (simp add: remoteAdd_def)
  have e0: "extends (within nc) w ?w0"
    by (rule call_taskStart_extends) (simp add: within_def)
  note e1 = extends_trans [OF e0 scheduleUpserts_within [OF a sa]]
  note e2 = extends_trans [OF e1 scheduleUpserts_within [OF m sm]]
  have "extends (within nc) w2 w3"
    by (rule extends_mono [OF scheduleDels_extends [OF d]]) (rule delEvent_within)
  note e3 = extends_trans [OF e2 this]
  have "extends (within nc) w3 (call_taskFinish g w3)"
    by (rule call_taskFinish_extends) (simp add: within_def)
  note e4 = extends_trans [OF e3 this]
  from assms gr a m d have "w' = w1 \<or> w' = w2 \<or> w' = w3 \<or> w' = call_taskFinish g w3"
    by (auto simp: playPushChangeList_def scheduleAdds_def scheduleMods_def same
        split: outcome.splits)
  with e1 e2 e3 e4 show ?thesis by auto
qed

lemma Push_quota_within:
  assumes "Push_quota g cl nc w = (r, w')"
  shows "extends (within nc) w w'"
proof -
  let ?n = "reduceToSize g cl True"
  obtain q e w1 where qs: "call_QuotaStatus g ?n w = ((q, e), w1)"
    by (metis prod.exhaust)
  then have e1: "extends (within nc) w w1"
    by (auto simp: call_QuotaStatus_def emit_def within_def extends_def newEvents_def
        split: prod.splits)
  let ?w2 = "emit (EvPrint (MsgProjectedSize ?n (prettyBytes g ?n)))
               (emit (EvPrint MsgExceeded) w1)"
  let ?wa = "emit (EvPrint MsgAlmostExceeded) w1"
  obtain b w3 where pr: "call_promptForChanges g ?w2 = (b, w3)"
    by (metis prod.exhaust)
  then have "extends (within nc) w1 w3"
    by (auto simp: call_promptForChanges_def emit_def within_def extends_def newEvents_def
        split: prod.splits)
  note e3 = extends_trans [OF e1 this]
  have "extends (within nc) w1 ?wa"
    by (rule extends_emit) (simp add: within_def)
  note ea = extends_trans [OF e1 this]
  from assms qs pr
  have "w' = w1 \<or> w' = w3
      \<or> playPushChangeList g nc w1 = (r, w')
      \<or> playPushChangeList g nc ?wa = (r, w')
      \<or> playPushChangeList g nc w3 = (r, w')"
    by (auto simp: Push_quota_def Let_def split: option.splits QuotaStatus.splits bool.splits)
  with e1 e3 ea show ?thesis
    by (auto dest!: playPushChangeList_within intro: extends_trans)
qed

subsection \<open>The runs of Push\<close>

lemma quotaTail_cases [consumes 1, case_names failed refused confirmed almost ok]:
  assumes "quotaTail g n nc q e r t"
  obtains
    (failed) qErr where "e = Some qErr" and "t = []" and "r = Done (Some qErr)"
  | (refused) "e = None" and "q = Exceeded" and "r = Done None"
      and "t = [EvPrint MsgExceeded, EvPrint (MsgProjectedSize n (prettyBytes g n)),
                EvPromptForChanges False]"
  | (confirmed) t' where "e = None" and "q = Exceeded" and "playRun nc r t'"
      and "t = [EvPrint MsgExceeded, EvPrint (MsgProjectedSize n (prettyBytes g n)),
                EvPromptForChanges True] @ t'"
  | (almost) t' where "e = None" and "q = AlmostExceeded" and "playRun nc r t'"
      and "t = EvPrint MsgAlmostExceeded # t'"
  | (ok) "e = None" and "q = Ok" and "playRun nc r t"
  using assms unfolding quotaTail_def
  by (auto split: option.splits QuotaStatus.splits if_splits)

lemma Push_cases [consumes 1, case_names source persist unconfirmed gate]:
  assumes run: "Push g w = (r, w')"
  obtains
    (source) tg cErr where
      "newEvents w w' = EvPrint MsgResolving # tg @ [EvClearMountPoints]"
      and "list_all gatherEvent tg" and "r = Done (Some cErr)"
      and "\<exists>ev \<in> set tg. sourceFailure ev = Some cErr"
      and "list_all (\<lambda>ev. sourceFailure ev = None \<or> sourceFailure ev = Some cErr) tg"
  | (persist) tg u where
      "newEvents w w' = EvPrint MsgResolving # tg @ [EvConflictsPersist u True, EvClearMountPoints]"
      and "list_all gatherEvent tg" and "list_all (\<lambda>ev. sourceFailure ev = None) tg"
      and "r = Done None"
  | (unconfirmed) tg tm nc where
      "newEvents w w' = EvPrint MsgResolving # tg @ tm
          @ [EvPrintChangeList nc (NoPrompt (opts g)) (NoClobber (opts g)) False,
             EvClearMountPoints]"
      and "list_all gatherEvent tg" and "list_all (\<lambda>ev. sourceFailure ev = None) tg"
      and "tm = [] \<or> (\<exists>u. tm = [EvConflictsPersist u False])" and "r = Done None"
  | (gate) tg tm nc cl q e tq where
      "newEvents w w' = EvPrint MsgResolving # tg @ tm
          @ EvPrintChangeList nc (NoPrompt (opts g)) (NoClobber (opts g)) True
          # EvQuotaStatus (reduceToSize g cl True) q e # tq @ [EvClearMountPoints]"
      and "cl = gathered tg"
      and "list_all gatherEvent tg" and "list_all (\<lambda>ev. sourceFailure ev = None) tg"
      and "tm = [] \<or> (\<exists>u. tm = [EvConflictsPersist u False])"
      and "quotaTail g (reduceToSize g cl True) nc q e r tq"
      and "\<exists>lookup. nc = fst (sift g cl)
             @ fst (resolveConflicts g (snd (sift g cl)) True lookup)
             @ snd (resolveConflicts g (snd (sift g cl)) True lookup)"
      and "list_all (within nc) tq"
proof -
  let ?w0 = "emit (EvPrint MsgResolving) w"
  obtain rb wb where body: "Push_body g w = (rb, wb)"
    by (metis prod.exhaust)
  with run have r: "r = rb" and w': "trace w' = trace wb @ [EvClearMountPoints]"
    by (auto simp: Push_def call_clearMountPoints_def emit_def)
  obtain gr w1 where ga: "Push_gather g ?w0 = (gr, w1)"
    by (metis prod.exhaust)
  note gs = Push_gather_shape [OF ga]
  define tg where "tg = newEvents ?w0 w1"
  have t1: "trace w1 = trace w @ EvPrint MsgResolving # tg"
    using extendsD [OF gs(1)] by (simp add: tg_def emit_def)
  have tg: "list_all gatherEvent tg"
    using extends_all [OF gs(1)] by (simp add: tg_def list_all_iff)
  have ok: "list_all (\<lambda>ev. sourceFailure ev = None) tg" if "gr = Inr cl" for cl
    using extends_all [OF gs(1)] that by (auto simp: tg_def list_all_iff)
  show thesis
  proof (cases gr)
    case (Inl cErr)
    with body ga have "rb = Done (Some cErr)" "wb = w1"
      by (simp_all add: Push_body_def)
    with r w' t1 have a: "newEvents w w' = EvPrint MsgResolving # tg @ [EvClearMountPoints]"
      and b: "r = Done (Some cErr)"
      by (simp_all add: newEvents_def)
    from gs(2) Inl have c: "\<exists>ev \<in> set tg. sourceFailure ev = Some cErr"
      by (simp add: tg_def)
    have d: "list_all (\<lambda>ev. sourceFailure ev = None \<or> sourceFailure ev = Some cErr) tg"
      unfolding list_all_iff
    proof
      fix ev assume "ev \<in> set tg"
      with extends_all [OF gs(1)] Inl
      have "\<forall>e. sourceFailure ev = Some e \<longrightarrow> e = cErr"
        by (auto simp: tg_def list_all_iff)
      then show "sourceFailure ev = None \<or> sourceFailure ev = Some cErr"
        by (cases "sourceFailure ev") auto
    qed
    show ?thesis by (rule source [OF a tg b c d])
  next
    case (Inr cl)
    obtain mr w2 where me: "Push_merge g cl w1 = (mr, w2)"
      by (metis prod.exhaust)
    from Push_merge_shape [OF me] obtain tm where
      t2: "trace w2 = trace w1 @ tm"
      and tm: "case mr of None \<Rightarrow> (\<exists>u. tm = [EvConflictsPersist u True])
               | Some nc \<Rightarrow> tm = [] \<or> (\<exists>u. tm = [EvConflictsPersist u False])"
      by blast
    show ?thesis
    proof (cases mr)
      case None
      with tm obtain u where u: "tm = [EvConflictsPersist u True]" by auto
      from body ga Inr me None have "rb = Done None" "wb = w2"
        by (simp_all add: Push_body_def)
      with r w' t1 t2 u
      have a: "newEvents w w' = EvPrint MsgResolving # tg @ [EvConflictsPersist u True,
              EvClearMountPoints]" and b: "r = Done None"
        by (simp_all add: newEvents_def)
      show ?thesis by (rule persist [OF a tg ok [OF Inr] b])
    next
      case (Some nc)
      with tm have tm': "tm = [] \<or> (\<exists>u. tm = [EvConflictsPersist u False])" by simp
      obtain b w3 where pc:
        "call_printChangeList g nc (NoPrompt (opts g)) (NoClobber (opts g)) w2 = (b, w3)"
        by (metis prod.exhaust)
      then have t3: "trace w3 = trace w2
          @ [EvPrintChangeList nc (NoPrompt (opts g)) (NoClobber (opts g)) b]"
        by (auto simp: call_printChangeList_def emit_def split: prod.splits)
      show ?thesis
      proof (cases b)
        case False
        with body ga Inr me Some pc have "rb = Done None" "wb = w3"
          by (simp_all add: Push_body_def)
        with r w' t1 t2 t3 False
        have a: "newEvents w w' = EvPrint MsgResolving # tg @ tm
          @ [EvPrintChangeList nc (NoPrompt (opts g)) (NoClobber (opts g)) False,
             EvClearMountPoints]" and b: "r = Done None"
          by (simp_all add: newEvents_def)
        show ?thesis by (rule unconfirmed [OF a tg ok [OF Inr] tm' b])
      next
        case True
        with body ga Inr me Some pc have q: "Push_quota g cl nc w3 = (rb, wb)"
          by (simp add: Push_body_def)
        from Push_quota_tail [OF q] obtain q e tq where
          t4: "trace wb = trace w3 @ EvQuotaStatus (reduceToSize g cl True) q e # tq"
          and tail: "quotaTail g (reduceToSize g cl True) nc q e rb tq"
          by blast
        from r w' t1 t2 t3 t4 True
        have a: "newEvents w w' = EvPrint MsgResolving # tg @ tm
          @ EvPrintChangeList nc (NoPrompt (opts g)) (NoClobber (opts g)) True
          # EvQuotaStatus (reduceToSize g cl True) q e # tq @ [EvClearMountPoints]"
          by (simp add: newEvents_def)
        have b: "cl = gathered tg"
          unfolding tg_def by (rule Push_gather_gathered [OF ga [unfolded Inr]])
        from tail have c: "quotaTail g (reduceToSize g cl True) nc q e r tq"
          by (simp add: r)
        from Push_merge_list [OF me [unfolded Some]]
        have d: "\<exists>lookup. nc = fst (sift g cl)
             @ fst (resolveConflicts g (snd (sift g cl)) True lookup)
             @ snd (resolveConflicts g (snd (sift g cl)) True lookup)"
          by blast
        have "newEvents w3 wb = EvQuotaStatus (reduceToSize g cl True) q e # tq"
          by (rule newEvents_append [OF t4])
        with extends_all [OF Push_quota_within [OF q]] have dw: "list_all (within nc) tq"
          by simp
        show ?thesis by (rule gate [OF a b tg ok [OF Inr] tm' c d dw])
      qed
    qed
  qed
qed

lemma quotaTail_events:
  assumes "quotaTail g n nc q e r t"
  shows "list_all (\<lambda>ev. gateEvent ev \<or> (applyEvent ev \<and> upsertInPlace ev)) t"
  using assms
  by (cases rule: quotaTail_cases) (auto simp: playRun_def list_all_iff)

lemma gatherEvent_cases:
  "gatherEvent ev \<Longrightarrow> \<not> isMutation ev \<and> \<not> isDispatch ev \<and> \<not> isTaskStart ev \<and> \<not> gateEvent ev
     \<and> upsertInPlace ev \<and> quotaFailure ev = None \<and> \<not> isPrint ev"
  by (cases ev) simp_all

lemma gateEvent_cases:
  "gateEvent ev \<Longrightarrow> \<not> isMutation ev \<and> \<not> isDispatch ev \<and> \<not> isTaskStart ev \<and> \<not> gatherEvent ev
     \<and> upsertInPlace ev \<and> quotaFailure ev = None \<and> sourceFailure ev = None"
  by (cases ev rule: gateEvent.cases) simp_all

lemma applyEvent_cases:
  "applyEvent ev \<Longrightarrow> \<not> gateEvent ev \<and> quotaFailure ev = None \<and> sourceFailure ev = None"
  unfolding applyEvent_def
  by (cases ev rule: modEvent.cases) (auto split: event.splits)




lemma not_isResolve:
  "applyEvent ev \<or> gateEvent ev \<Longrightarrow> \<not> isResolve ev"
  unfolding applyEvent_def
  by (cases ev rule: modEvent.cases) (auto elim: gateEvent.elims)

lemma quotaTail_gathered:
  assumes "quotaTail g n nc q e r t"
  shows "gathered t = []"
proof (rule gathered_none)
  show "list_all (\<lambda>ev. \<not> isResolve ev) t"
    using quotaTail_events [OF assms] not_isResolve by (auto simp: list_all_iff)
qed


lemma quotaTail_sourceFailure:
  assumes "quotaTail g n nc q e r t"
  shows "list_all (\<lambda>ev. sourceFailure ev = None) t"
  using quotaTail_events [OF assms]
  by (auto simp: list_all_iff dest: gateEvent_cases applyEvent_cases)

lemma Push_mounts_skips_failure:
  assumes "fst (lonePush g root (MtName mt) (MountPath mt) w) = (ccl, Some e)"
  shows "Push_mounts g root (mt # points) cl w
           = Push_mounts g root points cl (snd (lonePush g root (MtName mt) (MountPath mt) w))"
    and "list_all (\<lambda>ev. \<not> isPrint ev)
           (newEvents w (snd (lonePush g root (MtName mt) (MountPath mt) w)))"
proof -
  obtain w1 where lp: "lonePush g root (MtName mt) (MountPath mt) w = ((ccl, Some e), w1)"
    using assms by (metis prod.collapse)
  then show "Push_mounts g root (mt # points) cl w
           = Push_mounts g root points cl (snd (lonePush g root (MtName mt) (MountPath mt) w))"
    by simp
  have "\<not> isPrint ev" if "mountEvent ev" for ev
    using that by (cases ev) simp_all
  with extends_all [OF lonePush_extends [OF lp]] lp
  show "list_all (\<lambda>ev. \<not> isPrint ev)
           (newEvents w (snd (lonePush g root (MtName mt) (MountPath mt) w)))"
    by (auto simp: list_all_iff)
qed





subsection \<open>Deletion\<close>

text \<open>
  C8. \<open>remoteDelete\<close> calls \<open>Trash\<close> with the identifier of \<open>Dest\<close>. When \<open>Trash\<close> fails,
  its error is returned and nothing else is called but the deferred \<open>taskDone\<close>: the
  index entry is not touched. When \<open>Trash\<close> succeeds, the index file of that identifier
  is removed; a failure of the removal is printed and the function still returns nil.
\<close>

theorem remoteDelete_trash_then_index:
  assumes "Dest change = Some d"
  shows "(let (tErr, x1) = Trash g (ext w) (Id_f d);
              (rmErr, x2) = os_Remove g x1 (indexAbsPath g (Id_f d));
              (r, w') = remoteDelete g change w
          in (tErr \<noteq> None \<longrightarrow>
                r = Done tErr \<and> ext w' = taskDone g x1
                \<and> newEvents w w' = [EvTrash (Id_f d) tErr, EvTaskDone])
           \<and> (tErr = None \<longrightarrow>
                r = Done None \<and> ext w' = taskDone g x2
                \<and> newEvents w w' =
                    [EvTrash (Id_f d) None, EvRemove (indexAbsPath g (Id_f d)) rmErr]
                    @ (case rmErr of
                         None \<Rightarrow> []
                       | Some e \<Rightarrow> [EvPrint (MsgRemoveIndex (Path change) (Id_f d) e)])
                    @ [EvTaskDone]))"
  using assms
  by (auto simp: remoteDelete_def remoteDelete_body_def call_Trash_def call_os_Remove_def
      call_taskDone_def emit_def newEvents_def split: prod.splits option.splits)

theorem remoteDelete_trash_then_index_witness:
  "Dest delChange = Some oldRemote
   \<and> fst (remoteDelete (simCommands simOptions) delChange (simWorld simUnindexed)) = Done None
   \<and> newEvents (simWorld simUnindexed)
        (snd (remoteDelete (simCommands simOptions) delChange (simWorld simUnindexed))) =
      [EvTrash ''/docs/old.txt'' None,
       EvRemove ''/home/gd/.gd/indices//docs/old.txt'' (Some (Err ''no such file'')),
       EvPrint (MsgRemoveIndex ''/docs/old.txt'' ''/docs/old.txt'' (Err ''no such file'')),
       EvTaskDone]"
proof -
  have d: "Dest delChange = Some oldRemote"
    by (simp add: delChange_def)
  have t: "Trash (simCommands simOptions) (ext (simWorld simUnindexed)) (Id_f oldRemote)
             = (None, simUnindexed\<lparr>rfiles := [(''/docs'', docsDir), (''/'', rootDir)]\<rparr>)"
    by code_simp
  have r: "os_Remove (simCommands simOptions)
             (simUnindexed\<lparr>rfiles := [(''/docs'', docsDir), (''/'', rootDir)]\<rparr>)
             (indexAbsPath (simCommands simOptions) (Id_f oldRemote))
           = (Some (Err ''no such file''),
              simUnindexed\<lparr>rfiles := [(''/docs'', docsDir), (''/'', rootDir)]\<rparr>)"
    by code_simp
  have names: "Id_f oldRemote = ''/docs/old.txt''" "Path delChange = ''/docs/old.txt''"
    "indexAbsPath (simCommands simOptions) ''/docs/old.txt''
       = ''/home/gd/.gd/indices//docs/old.txt''"
    by code_simp+
  have "fst (remoteDelete (simCommands simOptions) delChange (simWorld simUnindexed)) = Done None
     \<and> newEvents (simWorld simUnindexed)
          (snd (remoteDelete (simCommands simOptions) delChange (simWorld simUnindexed))) =
        [EvTrash (Id_f oldRemote) None,
         EvRemove (indexAbsPath (simCommands simOptions) (Id_f oldRemote))
           (Some (Err ''no such file'')),
         EvPrint (MsgRemoveIndex (Path delChange) (Id_f oldRemote) (Err ''no such file'')),
         EvTaskDone]"
    using remoteDelete_trash_then_index
            [OF d, of "simCommands simOptions" "simWorld simUnindexed"]
    by (simp add: case_prod_beta Let_def t r)
  with d show ?thesis
    by (simp add: names)
qed

subsection \<open>Directory ensure\<close>

text \<open>
  C6. When the first lookup of \<open>mkdirAll\<close> finds the path (no error and a file that is
  not nil), \<open>mkdirAll\<close> returns that file and has made this one call only: no parent
  lookup, no upsert, no index write. A second call on a path that the lookup now finds
  therefore creates nothing.
\<close>

theorem mkdirAll_found_returns:
  assumes "FindByPath g (ext w) d = ((Some f, None), x)"
  shows "mkdirAll g d w =
           ((Some f, None),
            \<lparr>ext = x, trace = trace w @ [EvMkdirAll d, EvFindByPath d (Some f) None]\<rparr>)"
  using assms
  by (subst mkdirAll.simps) (simp add: call_FindByPath_def emit_def)

theorem mkdirAll_found_returns_witness:
  "FindByPath (simCommands simOptions) (ext simAfterMkdir) ''/docs/a''
     = ((Some dirA, None), ext simAfterMkdir)
   \<and> fst (mkdirAll (simCommands simOptions) ''/docs/a'' simAfterMkdir) = (Some dirA, None)
   \<and> newEvents simAfterMkdir (snd (mkdirAll (simCommands simOptions) ''/docs/a'' simAfterMkdir))
       = [EvMkdirAll ''/docs/a'', EvFindByPath ''/docs/a'' (Some dirA) None]
   \<and> length (filter (\<lambda>(k, v). k = ''/docs/a'')
         (rfiles (ext (snd (mkdirAll (simCommands simOptions) ''/docs/a'' simAfterMkdir))))) = 1"
proof -
  have found: "FindByPath (simCommands simOptions) (ext simAfterMkdir) ''/docs/a''
                 = ((Some dirA, None), ext simAfterMkdir)"
    by code_simp
  have one: "length (filter (\<lambda>(k, v). k = ''/docs/a'') (rfiles (ext simAfterMkdir))) = 1"
    by code_simp
  show ?thesis
    using mkdirAll_found_returns [OF found] found one
    by (simp add: newEvents_def)
qed

text \<open>
  C9 (amended). When the first lookup does not find the path and the trimmed path has an
  empty directory part or an empty last element, \<open>mkdirAll\<close> makes no further call and
  returns a nil file with the error whose message is \<open>cannot tamper with root\<close>.
\<close>

theorem mkdirAll_root_fails:
  assumes "FindByPath g (ext w) d = ((retrFile, retryErr), x)"
    and "\<not> (retryErr = None \<and> retrFile \<noteq> None)"
    and "filepath_Split (strings_TrimRight d UnescapedPathSep) = (rest, last')"
    and "rest = [] \<or> last' = []"
  shows "mkdirAll g d w =
           ((None, Some (Err ''cannot tamper with root'')),
            \<lparr>ext = x, trace = trace w @ [EvMkdirAll d, EvFindByPath d retrFile retryErr]\<rparr>)"
  using assms
  by (subst mkdirAll.simps) (auto simp add: call_FindByPath_def emit_def)

theorem mkdirAll_root_fails_witness:
  "FindByPath (simCommands simOptions) (ext (simWorld simEmpty)) ''/''
     = ((None, Some ErrPathNotExists), simEmpty)
   \<and> filepath_Split (strings_TrimRight ''/'' UnescapedPathSep) = ([], [])
   \<and> mkdirAll (simCommands simOptions) ''/'' (simWorld simEmpty)
       = ((None, Some (Err ''cannot tamper with root'')),
          \<lparr>ext = simEmpty,
             trace = [EvMkdirAll ''/'', EvFindByPath ''/'' None (Some ErrPathNotExists)]\<rparr>)"
proof -
  have look: "FindByPath (simCommands simOptions) (ext (simWorld simEmpty)) ''/''
                = ((None, Some ErrPathNotExists), simEmpty)"
    by code_simp
  have sp: "filepath_Split (strings_TrimRight ''/'' UnescapedPathSep) = ([], [])"
    by code_simp
  have nf: "\<not> (Some ErrPathNotExists = None \<and> (None :: File option) \<noteq> None)"
    by simp
  show ?thesis
    using mkdirAll_root_fails [OF look nf sp] look sp
    by (simp add: simWorld_def)
qed

text \<open>
  The claim C9 names the error \<open>cannot modify root\<close>; on the root of an empty remote
  the error of \<open>mkdirAll\<close> is another one.
\<close>

theorem mkdirAll_root_counterexample:
  "fst (mkdirAll (simCommands simOptions) ''/'' (simWorld simEmpty))
     = (None, Some (Err ''cannot tamper with root''))
   \<and> Err ''cannot tamper with root'' \<noteq> Err ''cannot modify root''"
  by code_simp

subsection \<open>Scheduling of upserts\<close>








subsection \<open>Upserts in place\<close>

text \<open>
  C5. Every upsert request that \<open>remoteMod\<close> builds for a change carries the destination
  of the change and, when that destination is not nil, the source of the change with its
  identifier set to the identifier of the destination. In a whole run of \<open>Push\<close>, every
  upsert request with a destination has a source with the identifier of that destination;
  this covers the conflicts that were resolved or force-included, which are applied as
  modifications.
\<close>

theorem remoteMod_keeps_destination_id:
  "list_all (upsertFor change) (newEvents w (snd (remoteMod g change w)))
   \<and> list_all upsertInPlace (newEvents w (snd (Push g w)))"
proof
  obtain r w' where run: "remoteMod g change w = (r, w')"
    by (metis prod.exhaust)
  from remoteMod_upsertFor [OF run] run
  show "list_all (upsertFor change) (newEvents w (snd (remoteMod g change w)))"
    by simp
next
  obtain r w' where run: "Push g w = (r, w')"
    by (metis prod.exhaust)
  from run have "list_all upsertInPlace (newEvents w w')"
  proof (cases rule: Push_cases)
    case (source tg cErr)
    then show ?thesis by (auto simp: list_all_iff dest: gatherEvent_cases)
  next
    case (persist tg u)
    then show ?thesis by (auto simp: list_all_iff dest: gatherEvent_cases)
  next
    case (unconfirmed tg tm nc)
    then show ?thesis by (auto simp: list_all_iff dest: gatherEvent_cases)
  next
    case (gate tg tm nc cl q e tq)
    from quotaTail_events [OF gate(6)] have "list_all upsertInPlace tq"
      by (auto simp: list_all_iff dest: gateEvent_cases)
    with gate show ?thesis by (auto simp: list_all_iff dest: gatherEvent_cases)
  qed
  with run show "list_all upsertInPlace (newEvents w (snd (Push g w)))" by simp
qed

theorem remoteMod_keeps_destination_id_witness:
  "list_all upsertInPlace
     (newEvents (simConflict [True, True] 0)
        (snd (Push (simCommands simOptions) (simConflict [True, True] 0))))
   \<and> EvUpsertByComparison
        \<lparr>parentId = ''/docs'', fsAbsPath = ''/home/gd//docs/old.txt'',
           src = Some (remoteFile ''/docs/old.txt'' ''old.txt'' 4), dest = Some oldRemote,
           mask = 0, ignoreChecksum = False\<rparr>
        (Some (remoteFile ''/docs/old.txt'' ''old.txt'' 4)) None
       \<in> set (newEvents (simConflict [True, True] 0)
            (snd (Push (simCommands simOptions) (simConflict [True, True] 0))))
   \<and> sim_Op conflictOld = OpModConflict"
proof -
  have ev: "EvUpsertByComparison
        \<lparr>parentId = ''/docs'', fsAbsPath = ''/home/gd//docs/old.txt'',
           src = Some (remoteFile ''/docs/old.txt'' ''old.txt'' 4), dest = Some oldRemote,
           mask = 0, ignoreChecksum = False\<rparr>
        (Some (remoteFile ''/docs/old.txt'' ''old.txt'' 4)) None
       \<in> set (newEvents (simConflict [True, True] 0)
            (snd (Push (simCommands simOptions) (simConflict [True, True] 0))))"
    by code_simp
  have op: "sim_Op conflictOld = OpModConflict"
    by code_simp
  show ?thesis
    using remoteMod_keeps_destination_id
            [of conflictOld "simConflict [True, True] 0" "simCommands simOptions"]
          ev op
    by simp
qed


subsection \<open>Declined conflicts\<close>

text \<open>
  C3. If \<open>conflictsPersist\<close> is called in a run of \<open>Push\<close> and returns true (there are
  unresolved conflicts and the user does not confirm), then \<open>Push\<close> returns nil and the
  run has made no upsert, no trash and no index change, and has dispatched no change.
\<close>

theorem Push_conflictsPersist_applies_nothing:
  assumes "EvConflictsPersist u True \<in> set (newEvents w (snd (Push g w)))"
  shows "fst (Push g w) = Done None
    \<and> list_all (\<lambda>ev. \<not> isMutation ev) (newEvents w (snd (Push g w)))
    \<and> dispatched (newEvents w (snd (Push g w))) = []"
proof -
  obtain r w' where run: "Push g w = (r, w')"
    by (metis prod.exhaust)
  with assms have inn: "EvConflictsPersist u True \<in> set (newEvents w w')" by simp
  from run inn have "r = Done None \<and> list_all (\<lambda>ev. \<not> isMutation ev) (newEvents w w')
    \<and> list_all (\<lambda>ev. \<not> isDispatch ev) (newEvents w w')"
  proof (cases rule: Push_cases)
    case (source tg cErr)
    with inn show ?thesis by (auto simp: list_all_iff dest: gatherEvent_cases)
  next
    case (persist tg u')
    then show ?thesis by (auto simp: list_all_iff dest: gatherEvent_cases)
  next
    case (unconfirmed tg tm nc)
    with inn show ?thesis by (auto simp: list_all_iff dest: gatherEvent_cases)
  next
    case (gate tg tm nc cl q e tq)
    from quotaTail_events [OF gate(6)] have "EvConflictsPersist u True \<notin> set tq"
      by (auto simp: list_all_iff applyEvent_def)
    with gate inn show ?thesis by (auto simp: list_all_iff dest: gatherEvent_cases)
  qed
  with run show ?thesis by (simp add: dispatched_none)
qed

theorem Push_conflictsPersist_applies_nothing_witness:
  "EvConflictsPersist [conflictOld] True
     \<in> set (newEvents (simConflict [False] 0)
          (snd (Push (simCommands simOptions) (simConflict [False] 0))))
   \<and> fst (Push (simCommands simOptions) (simConflict [False] 0)) = Done None
   \<and> list_all (\<lambda>ev. \<not> isMutation ev)
        (newEvents (simConflict [False] 0)
           (snd (Push (simCommands simOptions) (simConflict [False] 0))))
   \<and> rfiles (ext (snd (Push (simCommands simOptions) (simConflict [False] 0))))
       = rfiles (ext (simConflict [False] 0))"
proof -
  have inn: "EvConflictsPersist [conflictOld] True
     \<in> set (newEvents (simConflict [False] 0)
          (snd (Push (simCommands simOptions) (simConflict [False] 0))))"
    by code_simp
  have same: "rfiles (ext (snd (Push (simCommands simOptions) (simConflict [False] 0))))
       = rfiles (ext (simConflict [False] 0))"
    by code_simp
  show ?thesis
    using Push_conflictsPersist_applies_nothing [OF inn] inn same by simp
qed

subsection \<open>The quota gate\<close>

text \<open>
  C1. \<open>sift\<close>, \<open>resolveConflicts\<close> and \<open>reduceToSize\<close> are not defined in push.go and
  are taken as the spec describes them. Whenever a run of \<open>Push\<close> calls \<open>QuotaStatus\<close>,
  the size that it passes is the aggregate byte size of the change list that was shown,
  confirmed and handed to the applier: the non-conflicting changes merged with the
  conflicts that were resolved or force-included. Only the additions and modifications
  of files count: leaving out the deletions and the directories gives the same size.
  The list that line 89 measures, \<open>cl\<close>, holds the same changes as the confirmed list,
  each as often, and every change that is dispatched is one of them.
\<close>

theorem Push_quota_size:
  assumes "sift g = sift_spec (Op g)"
    and "resolveConflicts g = resolveConflicts_spec"
    and "reduceToSize g = reduceToSize_spec (Op g)"
    and "EvQuotaStatus n q e \<in> set (newEvents w (snd (Push g w)))"
  shows "(let t = newEvents w (snd (Push g w))
          in n = reduceToSize_spec (Op g) (shown t) True
           \<and> n = reduceToSize_spec (Op g) (filter (fileUpsert (Op g)) (shown t)) True
           \<and> n = reduceToSize g (gathered t) True
           \<and> (\<forall>c. count_list (gathered t) c = count_list (shown t) c)
           \<and> set (dispatched t) \<subseteq> set (shown t))"
proof -
  obtain r w' where run: "Push g w = (r, w')"
    by (metis prod.exhaust)
  with assms(4) have inn: "EvQuotaStatus n q e \<in> set (newEvents w w')" by simp
  have plain: "ev \<noteq> EvQuotaStatus n q e" if "gatherEvent ev" for ev
    using that by (cases ev) simp_all
  let ?t = "newEvents w w'"
  from run inn have "n = reduceToSize g (gathered ?t) True
    \<and> n = reduceToSize_spec (Op g) (shown ?t) True
    \<and> (\<forall>c. count_list (gathered ?t) c = count_list (shown ?t) c)
    \<and> set (dispatched ?t) \<subseteq> set (shown ?t)"
  proof (cases rule: Push_cases)
    case (source tg cErr)
    with inn show ?thesis by (auto simp: list_all_iff dest: plain)
  next
    case (persist tg u)
    with inn show ?thesis by (auto simp: list_all_iff dest: plain)
  next
    case (unconfirmed tg tm nc)
    with inn show ?thesis by (auto simp: list_all_iff dest: plain)
  next
    case (gate tg tm nc cl q' e' tq)
    have tm: "gathered tm = []" "shown tm = []" "dispatched tm = []"
      using gate(5) by auto
    have tq: "list_all (\<lambda>ev. gateEvent ev \<or> (applyEvent ev \<and> upsertInPlace ev)) tq"
      by (rule quotaTail_events [OF gate(6)])
    have all: "gathered ?t = cl"
      by (simp add: gate(1) gathered_append tm quotaTail_gathered [OF gate(6)] gate(2))
    have "shown tg = []"
      by (rule shown_none [OF gate(3)]) simp
    moreover have "shown tq = []"
      by (rule shown_none [OF tq]) (simp add: applyEvent_def)
    ultimately have sh: "shown ?t = nc"
      by (simp add: gate(1) shown_append tm)
    have "dispatched tg = []"
      by (rule dispatched_none) (use gate(3) in \<open>auto simp: list_all_iff dest: gatherEvent_cases\<close>)
    then have "dispatched ?t = dispatched tq"
      by (simp add: gate(1) dispatched_append tm)
    with dispatched_within [OF gate(8)] have di: "set (dispatched ?t) \<subseteq> set nc"
      by simp
    have "EvQuotaStatus n q e \<notin> set tq"
      using tq by (auto simp: list_all_iff applyEvent_def)
    moreover have "EvQuotaStatus n q e \<notin> set tg" "EvQuotaStatus n q e \<notin> set tm"
      using gate(3,5) by (auto simp: list_all_iff dest: plain)
    ultimately have n: "n = reduceToSize g cl True"
      using inn unfolding gate(1) by auto
    from gate(7) obtain lookup where nc: "nc = fst (sift_spec (Op g) cl)
        @ fst (resolveConflicts_spec (snd (sift_spec (Op g) cl)) True lookup)
        @ snd (resolveConflicts_spec (snd (sift_spec (Op g) cl)) True lookup)"
      unfolding assms(1,2) by blast
    have size: "reduceToSize_spec (Op g) nc True = reduceToSize_spec (Op g) cl True"
      unfolding nc by (rule merge_spec_size)
    have count: "count_list nc c = count_list cl c" for c
      unfolding nc by (rule merge_spec_count)
    from n size count di show ?thesis
      by (simp add: all sh assms(3))
  qed
  with run show ?thesis
    by (simp add: Let_def reduceToSize_spec_counted)
qed

theorem Push_quota_size_witness:
  "sift (simCommands simOptions) = sift_spec (Op (simCommands simOptions))
   \<and> reduceToSize (simCommands simOptions) = reduceToSize_spec (Op (simCommands simOptions))
   \<and> EvQuotaStatus 7 Ok None
       \<in> set (newEvents (simConflict [True, True] 0)
            (snd (Push (simCommands simOptions) (simConflict [True, True] 0))))
   \<and> sift (simCommands simOptions) [addNew, conflictOld] = ([addNew], [conflictOld])
   \<and> shown (newEvents (simConflict [True, True] 0)
        (snd (Push (simCommands simOptions) (simConflict [True, True] 0))))
       = [addNew, conflictOld]
   \<and> dispatched (newEvents (simConflict [True, True] 0)
        (snd (Push (simCommands simOptions) (simConflict [True, True] 0))))
       = [addNew, conflictOld]
   \<and> reduceToSize_spec sim_Op [addNew, conflictOld] True = 7
   \<and> EvQuotaStatus 3 Ok None
       \<in> set (newEvents simMixed (snd (Push (simCommands simOptions) simMixed)))
   \<and> shown (newEvents simMixed (snd (Push (simCommands simOptions) simMixed)))
       = [addNew, delChange, addDir]
   \<and> filter (fileUpsert sim_Op) [addNew, delChange, addDir] = [addNew]
   \<and> reduceToSize_spec sim_Op [addNew, delChange, addDir] True = 3"
proof -
  have helpers: "sift (simCommands simOptions) = sift_spec (Op (simCommands simOptions))"
    "resolveConflicts (simCommands simOptions) = resolveConflicts_spec"
    "reduceToSize (simCommands simOptions) = reduceToSize_spec (Op (simCommands simOptions))"
    by (simp_all add: simCommands_def)
  have op: "Op (simCommands simOptions) = sim_Op"
    by (simp add: simCommands_def)
  have inn: "EvQuotaStatus 7 Ok None
     \<in> set (newEvents (simConflict [True, True] 0)
          (snd (Push (simCommands simOptions) (simConflict [True, True] 0))))"
    by code_simp
  have sifted: "sift (simCommands simOptions) [addNew, conflictOld] = ([addNew], [conflictOld])"
    by code_simp
  have sh: "shown (newEvents (simConflict [True, True] 0)
        (snd (Push (simCommands simOptions) (simConflict [True, True] 0))))
       = [addNew, conflictOld]"
    by code_simp
  have di: "dispatched (newEvents (simConflict [True, True] 0)
        (snd (Push (simCommands simOptions) (simConflict [True, True] 0))))
       = [addNew, conflictOld]"
    by code_simp
  have inn': "EvQuotaStatus 3 Ok None
       \<in> set (newEvents simMixed (snd (Push (simCommands simOptions) simMixed)))"
    by code_simp
  have sh': "shown (newEvents simMixed (snd (Push (simCommands simOptions) simMixed)))
       = [addNew, delChange, addDir]"
    by code_simp
  have counted: "filter (fileUpsert sim_Op) [addNew, delChange, addDir] = [addNew]"
    by code_simp
  show ?thesis
    using Push_quota_size [OF helpers inn] Push_quota_size [OF helpers inn']
      helpers(1,3) inn sifted sh di inn' sh' counted
    by (simp add: Let_def op)
qed





subsection \<open>Failures of the change resolution\<close>

text \<open>
  C10. In a run of \<open>Push\<close>, a \<open>changeListResolve\<close> of a source that fails makes \<open>Push\<close>
  return that error, with no upsert, trash or index change made and no change
  dispatched. Every error that \<open>Push\<close> returns is the error of a \<open>changeListResolve\<close> or
  of \<open>QuotaStatus\<close>: the error of a mount point is never returned. In the loop over the
  mount points, a \<open>lonePush\<close> that fails leaves the change list as it was, prints nothing,
  and the loop goes on with the next mount point.
\<close>

theorem Push_resolution_failures:
  "(let (r, w') = Push g w; t = newEvents w w'
    in (\<forall>ev \<in> set t. \<forall>e. sourceFailure ev = Some e \<longrightarrow>
          r = Done (Some e) \<and> list_all (\<lambda>ev. \<not> isMutation ev) t \<and> dispatched t = [])
     \<and> (\<forall>e. r = Done (Some e) \<longrightarrow>
          (\<exists>ev \<in> set t. sourceFailure ev = Some e \<or> quotaFailure ev = Some e)))
   \<and> (\<forall>ccl e. fst (lonePush g root (MtName mt) (MountPath mt) w) = (ccl, Some e) \<longrightarrow>
         Push_mounts g root (mt # points) cl w
           = Push_mounts g root points cl (snd (lonePush g root (MtName mt) (MountPath mt) w))
         \<and> list_all (\<lambda>ev. \<not> isPrint ev)
             (newEvents w (snd (lonePush g root (MtName mt) (MountPath mt) w))))"
proof (intro conjI)
  obtain r w' where run: "Push g w = (r, w')"
    by (metis prod.exhaust)
  let ?t = "newEvents w w'"
  from run have
    "(\<forall>ev \<in> set ?t. \<forall>e. sourceFailure ev = Some e \<longrightarrow>
          r = Done (Some e) \<and> list_all (\<lambda>ev. \<not> isMutation ev) ?t
          \<and> list_all (\<lambda>ev. \<not> isDispatch ev) ?t)
     \<and> (\<forall>e. r = Done (Some e) \<longrightarrow>
          (\<exists>ev \<in> set ?t. sourceFailure ev = Some e \<or> quotaFailure ev = Some e))"
  proof (cases rule: Push_cases)
    case (source tg cErr)
    then show ?thesis
      by (auto simp: list_all_iff dest: gatherEvent_cases)
  next
    case (persist tg u)
    then show ?thesis
      by (auto simp: list_all_iff)
  next
    case (unconfirmed tg tm nc)
    then show ?thesis
      by (auto simp: list_all_iff)
  next
    case (gate tg tm nc cl q e tq)
    have none: "\<forall>ev \<in> set ?t. sourceFailure ev = None"
      using gate(1,4,5) quotaTail_sourceFailure [OF gate(6)]
      by (auto simp: list_all_iff)
    have "\<exists>ev \<in> set ?t. quotaFailure ev = Some e'" if "r = Done (Some e')" for e'
      using gate(6)
    proof (cases rule: quotaTail_cases)
      case (failed qErr)
      with that gate(1) show ?thesis by auto
    next
      case refused
      with that show ?thesis by simp
    next
      case (confirmed t')
      with that show ?thesis by (auto simp: playRun_def)
    next
      case (almost t')
      with that show ?thesis by (auto simp: playRun_def)
    next
      case ok
      with that show ?thesis by (auto simp: playRun_def)
    qed
    with none show ?thesis by auto
  qed
  then show "(let (r, w') = Push g w; t = newEvents w w'
    in (\<forall>ev \<in> set t. \<forall>e. sourceFailure ev = Some e \<longrightarrow>
          r = Done (Some e) \<and> list_all (\<lambda>ev. \<not> isMutation ev) t \<and> dispatched t = [])
     \<and> (\<forall>e. r = Done (Some e) \<longrightarrow>
          (\<exists>ev \<in> set t. sourceFailure ev = Some e \<or> quotaFailure ev = Some e)))"
    using run by (auto simp: Let_def dispatched_none)
next
  show "\<forall>ccl e. fst (lonePush g root (MtName mt) (MountPath mt) w) = (ccl, Some e) \<longrightarrow>
         Push_mounts g root (mt # points) cl w
           = Push_mounts g root points cl (snd (lonePush g root (MtName mt) (MountPath mt) w))
         \<and> list_all (\<lambda>ev. \<not> isPrint ev)
             (newEvents w (snd (lonePush g root (MtName mt) (MountPath mt) w)))"
    using Push_mounts_skips_failure by blast
qed

theorem Push_resolution_failures_witness:
  "EvChangeListResolve ''nope'' ''/home/gd/nope'' True [] (Some (Err ''cannot resolve''))
     \<in> set (newEvents (simConflict [True, True] 0)
          (snd (Push simNoSource (simConflict [True, True] 0))))
   \<and> fst (Push simNoSource (simConflict [True, True] 0)) = Done (Some (Err ''cannot resolve''))
   \<and> list_all (\<lambda>ev. \<not> isMutation ev)
        (newEvents (simConflict [True, True] 0)
           (snd (Push simNoSource (simConflict [True, True] 0))))
   \<and> fst (lonePush simLostMount ''/home/gd/'' (MtName lostMount) (MountPath lostMount)
             (simConflict [True, True] 0)) = ([], Some (Err ''nothing mounted''))
   \<and> fst (Push simLostMount (simConflict [True, True] 0)) = Done None
   \<and> gathered (newEvents (simConflict [True, True] 0)
        (snd (Push simLostMount (simConflict [True, True] 0)))) = [addNew, conflictOld]
   \<and> list_ex isMutation
        (newEvents (simConflict [True, True] 0)
           (snd (Push simLostMount (simConflict [True, True] 0))))"
proof -
  have failed: "EvChangeListResolve ''nope'' ''/home/gd/nope'' True []
       (Some (Err ''cannot resolve''))
     \<in> set (newEvents (simConflict [True, True] 0)
          (snd (Push simNoSource (simConflict [True, True] 0))))"
    by code_simp
  have lost: "fst (lonePush simLostMount ''/home/gd/'' (MtName lostMount) (MountPath lostMount)
             (simConflict [True, True] 0)) = ([], Some (Err ''nothing mounted''))"
    by code_simp
  have goes_on: "fst (Push simLostMount (simConflict [True, True] 0)) = Done None
   \<and> gathered (newEvents (simConflict [True, True] 0)
        (snd (Push simLostMount (simConflict [True, True] 0)))) = [addNew, conflictOld]
   \<and> list_ex isMutation
        (newEvents (simConflict [True, True] 0)
           (snd (Push simLostMount (simConflict [True, True] 0))))"
    by code_simp
  have sf: "sourceFailure (EvChangeListResolve ''nope'' ''/home/gd/nope'' True []
       (Some (Err ''cannot resolve''))) = Some (Err ''cannot resolve'')"
    by simp
  from Push_resolution_failures [of simNoSource "simConflict [True, True] 0"
      "''/home/gd/''" lostMount "[]" "[]"]
  have "\<forall>ev \<in> set (newEvents (simConflict [True, True] 0)
          (snd (Push simNoSource (simConflict [True, True] 0)))).
        \<forall>e. sourceFailure ev = Some e \<longrightarrow>
          fst (Push simNoSource (simConflict [True, True] 0)) = Done (Some e)
          \<and> list_all (\<lambda>ev. \<not> isMutation ev)
              (newEvents (simConflict [True, True] 0)
                (snd (Push simNoSource (simConflict [True, True] 0))))"
    by (simp add: Let_def case_prod_beta)
  from this [rule_format, OF failed sf] failed lost goes_on
  show ?thesis by simp
qed

end
